theory Spec2Isabelle
  imports Complex_Main "HOL-Library.Char_ord" "HOL-Library.List_Lexorder"
    "HOL-Library.Product_Lexorder" "HOL-Library.Log_Nat"
begin

section \<open>Values, columns and tables\<close>

text \<open>
  The pipeline of \<^verbatim>\<open>main.py\<close> works on pandas tables. A cell of a table is one of the
  scalars a line of the JSON feed can carry (text, integer, float, boolean, null) or one of
  the markers pandas uses for a missing value: \<^verbatim>\<open>None\<close>, \<^verbatim>\<open>np.nan\<close>, \<^verbatim>\<open>pd.NA\<close>,
  \<^verbatim>\<open>pd.NaT\<close>. A timestamp is kept as seconds since the epoch. A finite float is kept as
  the real number it denotes, the two infinities apart (\<open>PyInf True\<close> is the positive
  one); JSON delivers them for a number beyond the float range. Integers are Python's,
  without bound. Where Python or pandas turns an integer into a float the model rounds
  it as they do and raises \<^verbatim>\<open>OverflowError\<close> where they do.
\<close>

datatype cell =
    PyNone
  | NaN
  | NA
  | NaT
  | PyBool bool
  | PyInt int
  | PyFloat real
  | PyInf bool
  | PyStr string
  | Timestamp real

datatype dtype =
    Object
  | Int64
  | UInt64
  | Float64
  | Bool
  | Category
  | StringDtype
  | Boolean
  | Int32
  | Datetime64

datatype series = Series (dtype: dtype) (vals: "cell list")

type_synonym dataframe = "(string \<times> series) list"

datatype error =
    IndexError
  | KeyError
  | ValueError
  | TypeError
  | AttributeError
  | OverflowError
  | FileNotFoundError
  | NoSuchTableError
  | CompileError
  | IntegrityError
  | ProgrammingError

text \<open>\<^verbatim>\<open>pd.isna\<close>: the four markers of a missing value.\<close>

fun is_null :: "cell \<Rightarrow> bool" where
  "is_null PyNone = True"
| "is_null NaN = True"
| "is_null NA = True"
| "is_null NaT = True"
| "is_null _ = False"

text \<open>The number a numeric scalar denotes; Python compares numbers across \<^verbatim>\<open>bool\<close>,
  \<^verbatim>\<open>int\<close> and \<^verbatim>\<open>float\<close> by value.\<close>

fun num_val :: "cell \<Rightarrow> real option" where
  "num_val (PyBool b) = Some (if b then 1 else 0)"
| "num_val (PyInt i) = Some (real_of_int i)"
| "num_val (PyFloat r) = Some r"
| "num_val _ = None"

definition py_eq :: "cell \<Rightarrow> cell \<Rightarrow> bool" where
  "py_eq a b =
     (case (num_val a, num_val b) of
        (Some x, Some y) \<Rightarrow> x = y
      | (None, None) \<Rightarrow> a = b
      | _ \<Rightarrow> False)"

text \<open>A Python \<^verbatim>\<open>dict\<close> keyed by scalars, in insertion order. \<^verbatim>\<open>d[k] = v\<close> overwrites the
  value of an existing key in place and appends a new key.\<close>

fun dict_get :: "(cell \<times> 'v) list \<Rightarrow> cell \<Rightarrow> 'v option" where
  "dict_get [] k = None"
| "dict_get ((k', v) # d) k = (if py_eq k' k then Some v else dict_get d k)"

fun dict_set :: "(cell \<times> 'v) list \<Rightarrow> cell \<Rightarrow> 'v \<Rightarrow> (cell \<times> 'v) list" where
  "dict_set [] k v = [(k, v)]"
| "dict_set ((k', v') # d) k v =
     (if py_eq k' k then (k', v) # d else (k', v') # dict_set d k v)"

text \<open>\<^verbatim>\<open>dict(zip(keys, values))\<close>.\<close>

fun py_dict :: "(cell \<times> 'v) list \<Rightarrow> (cell \<times> 'v) list \<Rightarrow> (cell \<times> 'v) list" where
  "py_dict d [] = d"
| "py_dict d ((k, v) # kvs) = py_dict (dict_set d k v) kvs"

text \<open>Running a fallible function over a list: the first exception ends the run.\<close>

fun mapM :: "('a \<Rightarrow> error + 'b) \<Rightarrow> 'a list \<Rightarrow> error + 'b list" where
  "mapM f [] = Inr []"
| "mapM f (x # xs) =
     (case f x of
        Inl e \<Rightarrow> Inl e
      | Inr y \<Rightarrow> (case mapM f xs of Inl e \<Rightarrow> Inl e | Inr ys \<Rightarrow> Inr (y # ys)))"

text \<open>
  \<^verbatim>\<open>float(i)\<close> on a Python integer: the nearest double, a tie going to the even
  significand of 53 bits, and \<^verbatim>\<open>OverflowError\<close> ("int too large to convert to float")
  when that would be \<open>2 ^ 1024\<close> or more. Integers up to \<open>2 ^ 53\<close> convert exactly.
\<close>

definition float_overflow :: "int \<Rightarrow> bool" where
  "float_overflow i = (2 ^ 1024 - 2 ^ 970 \<le> \<bar>i\<bar>)"

definition round_double :: "int \<Rightarrow> int" where
  "round_double i =
     (if \<bar>i\<bar> \<le> 2 ^ 53 then i
      else
        let e = floorlog 2 (nat \<bar>i\<bar>) - 53;
            q = \<bar>i\<bar> div 2 ^ e;
            r = \<bar>i\<bar> mod 2 ^ e;
            q' = (if 2 ^ (e - 1) < r then q + 1
                  else if r = 2 ^ (e - 1) \<and> odd q then q + 1
                  else q)
        in sgn i * (q' * 2 ^ e))"

definition py_float :: "int \<Rightarrow> error + cell" where
  "py_float i =
     (if float_overflow i then Inl OverflowError
      else Inr (PyFloat (real_of_int (round_double i))))"

fun huge :: "cell \<Rightarrow> bool" where
  "huge (PyInt i) = float_overflow i"
| "huge v = False"

definition in_int64 :: "int \<Rightarrow> bool" where
  "in_int64 i = (- (2 ^ 63) \<le> i \<and> i < 2 ^ 63)"

definition in_uint64 :: "int \<Rightarrow> bool" where
  "in_uint64 i = (0 \<le> i \<and> i < 2 ^ 64)"

text \<open>
  The text-level routines of Python and pandas are parameters of the model: what
  \<^verbatim>\<open>int(s)\<close> and \<^verbatim>\<open>float(s)\<close> accept, what the tokenizer of \<^verbatim>\<open>pd.to_numeric\<close> accepts,
  how \<^verbatim>\<open>str(v)\<close> prints a scalar, and how \<^verbatim>\<open>pd.to_datetime\<close> reads a column (\<open>None\<close>
  when it raises, otherwise one optional time per cell, \<open>None\<close> for \<^verbatim>\<open>NaT\<close>).
  One more parameter stands for the type inference pandas runs over a column of objects
  before it looks the cells up in an index (\<^verbatim>\<open>Series.map\<close> with a dictionary): it says
  whether that inference reaches an integer beyond the float range, on which it raises
  \<^verbatim>\<open>OverflowError\<close>; it stops early at the first cell that settles the type, a text for
  one. Every theorem below holds for every choice of these routines.
\<close>

datatype literal = IntLit int | FloatLit real | InfLit bool | NanLit

record pylib =
  int_of_str :: "string \<Rightarrow> int option"
  float_of_str :: "string \<Rightarrow> literal option"
  numeric_of_str :: "string \<Rightarrow> literal option"
  str_of_cell :: "cell \<Rightarrow> string"
  to_datetime :: "cell list \<Rightarrow> real option list option"
  inference_reaches_huge :: "cell list \<Rightarrow> bool"

section \<open>Identifier validation: \<^verbatim>\<open>dropInvalid\<close>\<close>

text \<open>
  \<^verbatim>\<open>pd.to_numeric(col, errors='coerce')\<close>. Each cell is read as a number; text the
  tokenizer rejects, the empty text among it, and every missing value become \<^verbatim>\<open>NaN\<close>.
  pandas stores the float of every integer it meets, so an integer beyond the float
  range raises \<^verbatim>\<open>OverflowError\<close>, which \<^verbatim>\<open>errors='coerce'\<close> does not catch; a text that
  spells such an integer reads as an infinite float. The column that comes back has one
  numeric type: booleans when every cell is one, signed 64-bit integers when every cell
  is such an integer or a boolean, unsigned ones likewise, and floats otherwise, each
  integer rounded to its double.
\<close>

fun numeric_coerce :: "pylib \<Rightarrow> cell \<Rightarrow> error + cell" where
  "numeric_coerce L (PyInt i) = (if float_overflow i then Inl OverflowError else Inr (PyInt i))"
| "numeric_coerce L (PyFloat r) = Inr (PyFloat r)"
| "numeric_coerce L (PyInf b) = Inr (PyInf b)"
| "numeric_coerce L (PyBool b) = Inr (PyBool b)"
| "numeric_coerce L (PyStr s) =
     Inr (case numeric_of_str L s of
            Some (IntLit i) \<Rightarrow> if float_overflow i then PyInf (0 < i) else PyInt i
          | Some (FloatLit r) \<Rightarrow> PyFloat r
          | Some (InfLit b) \<Rightarrow> PyInf b
          | Some NanLit \<Rightarrow> NaN
          | None \<Rightarrow> NaN)"
| "numeric_coerce L (Timestamp t) = Inr (PyInt \<lfloor>t * 10 ^ 9\<rfloor>)"
| "numeric_coerce L _ = Inr NaN"

fun is_bool :: "cell \<Rightarrow> bool" where
  "is_bool (PyBool b) = True"
| "is_bool _ = False"

fun is_int :: "cell \<Rightarrow> bool" where
  "is_int (PyInt i) = True"
| "is_int _ = False"

fun is_float :: "cell \<Rightarrow> bool" where
  "is_float (PyFloat r) = True"
| "is_float (PyInf b) = True"
| "is_float _ = False"

fun is_str :: "cell \<Rightarrow> bool" where
  "is_str (PyStr s) = True"
| "is_str _ = False"

fun is_int64 :: "cell \<Rightarrow> bool" where
  "is_int64 (PyInt i) = in_int64 i"
| "is_int64 (PyBool b) = True"
| "is_int64 _ = False"

fun is_uint64 :: "cell \<Rightarrow> bool" where
  "is_uint64 (PyInt i) = in_uint64 i"
| "is_uint64 (PyBool b) = True"
| "is_uint64 _ = False"

fun to_int :: "cell \<Rightarrow> cell" where
  "to_int (PyBool b) = PyInt (if b then 1 else 0)"
| "to_int v = v"

fun to_float :: "cell \<Rightarrow> cell" where
  "to_float (PyBool b) = PyFloat (if b then 1 else 0)"
| "to_float (PyInt i) = PyFloat (real_of_int (round_double i))"
| "to_float v = v"

definition numeric_series :: "cell list \<Rightarrow> series" where
  "numeric_series vs =
     (if vs \<noteq> [] \<and> list_all is_bool vs then Series Bool vs
      else if list_all is_int64 vs then Series Int64 (map to_int vs)
      else if list_all is_uint64 vs then Series UInt64 (map to_int vs)
      else Series Float64 (map to_float vs))"

definition to_numeric_coerce :: "pylib \<Rightarrow> series \<Rightarrow> error + series" where
  "to_numeric_coerce L s =
     (case mapM (numeric_coerce L) (vals s) of
        Inl e \<Rightarrow> Inl e
      | Inr vs \<Rightarrow> Inr (numeric_series vs))"

text \<open>\<^verbatim>\<open>df.iloc[:, i] = new\<close> writes the new values into the column; a column of Python
  objects keeps its type and boxes them, any other column takes the type of the new
  values.\<close>

definition iloc_assign :: "series \<Rightarrow> series \<Rightarrow> series" where
  "iloc_assign old new =
     Series (if dtype old = Object then Object else dtype new) (vals new)"

text \<open>Keeping the rows a boolean mask selects, in every column.\<close>

definition select :: "bool list \<Rightarrow> 'a list \<Rightarrow> 'a list" where
  "select keep xs = map snd (filter fst (zip keep xs))"

definition take_rows :: "bool list \<Rightarrow> dataframe \<Rightarrow> dataframe" where
  "take_rows keep df = map (\<lambda>(name, s). (name, Series (dtype s) (select keep (vals s)))) df"

text \<open>\<^verbatim>\<open>df.dropna(subset=[c])\<close>: a missing column name raises \<^verbatim>\<open>KeyError\<close>.\<close>

definition dropna :: "dataframe \<Rightarrow> string \<Rightarrow> error + dataframe" where
  "dropna df c =
     (case map_of df c of
        None \<Rightarrow> Inl KeyError
      | Some s \<Rightarrow> Inr (take_rows (map (\<lambda>v. \<not> is_null v) (vals s)) df))"

text \<open>
  \<^verbatim>\<open>
  def dropInvalid(df):
      df.iloc[:, 1] = pd.to_numeric(df.iloc[:, 1], errors='coerce')
      df = df.dropna(subset=['animalID'])
      return(df)
  \<close>
  The coercion addresses the identifier by position, the filter by name.
\<close>

definition dropInvalid :: "pylib \<Rightarrow> dataframe \<Rightarrow> error + dataframe" where
  "dropInvalid L df =
     (if length df < 2 then Inl IndexError
      else
        (case to_numeric_coerce L (snd (df ! 1)) of
           Inl e \<Rightarrow> Inl e
         | Inr new \<Rightarrow>
             dropna (df[1 := (fst (df ! 1), iloc_assign (snd (df ! 1)) new)]) ''animalID''))"

text \<open>Rows of a table, for stating properties record by record.\<close>

definition nrows :: "dataframe \<Rightarrow> nat" where
  "nrows df = (case df of [] \<Rightarrow> 0 | (name, s) # rest \<Rightarrow> length (vals s))"

definition rectangular :: "dataframe \<Rightarrow> bool" where
  "rectangular df = list_all (\<lambda>(name, s). length (vals s) = nrows df) df"

definition column :: "dataframe \<Rightarrow> nat \<Rightarrow> cell list" where
  "column df j = vals (snd (df ! j))"

section \<open>Type coercion: \<^verbatim>\<open>dtypeConv\<close>\<close>

subsection \<open>The conversions\<close>

text \<open>
  \<^verbatim>\<open>astype(int)\<close> into a 64-bit column. On a column of objects it is Python's
  \<^verbatim>\<open>int(v)\<close> on every cell, which raises on a value that does not fit. On a float
  column it is the cast of numpy: a value that is not finite raises, the fraction is cut
  off and a value that does not fit comes out as \<open>- 2 ^ 63\<close> without an error. On an
  unsigned column the values from \<open>2 ^ 63\<close> on wrap around.
\<close>

definition truncate :: "real \<Rightarrow> int" where
  "truncate r = (if 0 \<le> r then \<lfloor>r\<rfloor> else \<lceil>r\<rceil>)"

fun int_of_cell :: "pylib \<Rightarrow> cell \<Rightarrow> error + int" where
  "int_of_cell L (PyInt i) = Inr i"
| "int_of_cell L (PyBool b) = Inr (if b then 1 else 0)"
| "int_of_cell L (PyFloat r) = Inr (truncate r)"
| "int_of_cell L (PyInf b) = Inl OverflowError"
| "int_of_cell L (PyStr s) =
     (case int_of_str L s of None \<Rightarrow> Inl ValueError | Some i \<Rightarrow> Inr i)"
| "int_of_cell L NaN = Inl ValueError"
| "int_of_cell L _ = Inl TypeError"

definition int64_cell :: "pylib \<Rightarrow> cell \<Rightarrow> error + cell" where
  "int64_cell L v =
     (case int_of_cell L v of
        Inl e \<Rightarrow> Inl e
      | Inr i \<Rightarrow> if in_int64 i then Inr (PyInt i) else Inl OverflowError)"

fun float_cast :: "cell \<Rightarrow> error + cell" where
  "float_cast (PyFloat r) = Inr (PyInt (if in_int64 (truncate r) then truncate r else - (2 ^ 63)))"
| "float_cast (PyInt i) = Inr (PyInt (if in_int64 i then i else - (2 ^ 63)))"
| "float_cast (PyBool b) = Inr (PyInt (if b then 1 else 0))"
| "float_cast NaN = Inl ValueError"
| "float_cast (PyInf b) = Inl ValueError"
| "float_cast v = Inl TypeError"

fun unsigned_cast :: "pylib \<Rightarrow> cell \<Rightarrow> error + cell" where
  "unsigned_cast L (PyInt i) = Inr (PyInt (if i < 2 ^ 63 then i else i - 2 ^ 64))"
| "unsigned_cast L v = int64_cell L v"

definition astype_int :: "pylib \<Rightarrow> series \<Rightarrow> error + series" where
  "astype_int L s =
     (case mapM (if dtype s = Float64 then float_cast
                 else if dtype s = UInt64 then unsigned_cast L
                 else int64_cell L) (vals s) of
        Inl e \<Rightarrow> Inl e
      | Inr vs \<Rightarrow> Inr (Series Int64 vs))"

text \<open>\<^verbatim>\<open>astype('category')\<close>: the values stay, every missing value is the one
  missing code of a categorical.\<close>

definition astype_category :: "series \<Rightarrow> series" where
  "astype_category s = Series Category (map (\<lambda>v. if is_null v then NaN else v) (vals s))"

text \<open>\<^verbatim>\<open>astype('string')\<close>: text stays, other scalars are printed, a missing value is
  \<^verbatim>\<open>pd.NA\<close>.\<close>

definition astype_string :: "pylib \<Rightarrow> series \<Rightarrow> series" where
  "astype_string L s =
     Series StringDtype
       (map (\<lambda>v. if is_null v then NA else if is_str v then v else PyStr (str_of_cell L v))
          (vals s))"

text \<open>
  \<^verbatim>\<open>boolMap = {'Yes': True, 'No': False, '': pd.NA, None: pd.NA}\<close> and
  \<^verbatim>\<open>col.map(boolMap)\<close>: a cell that is no key of the dictionary becomes \<^verbatim>\<open>NaN\<close>. The
  values of this dictionary are Python objects, so is the mapped column. Before the
  lookup pandas infers a type for the column; when the column holds an integer beyond
  the float range and the inference reaches it, the call raises \<^verbatim>\<open>OverflowError\<close>.
\<close>

definition boolMap :: "(cell \<times> cell) list" where
  "boolMap = [(PyStr ''Yes'', PyBool True), (PyStr ''No'', PyBool False),
              (PyStr '''', NA), (PyNone, NA)]"

definition map_cell :: "(cell \<times> cell) list \<Rightarrow> cell \<Rightarrow> cell" where
  "map_cell d v = (case dict_get d v of None \<Rightarrow> NaN | Some w \<Rightarrow> w)"

definition map_object :: "pylib \<Rightarrow> (cell \<times> cell) list \<Rightarrow> series \<Rightarrow> error + series" where
  "map_object L d s =
     (if list_ex huge (vals s) \<and> inference_reaches_huge L (vals s) then Inl OverflowError
      else Inr (Series Object (map (map_cell d) (vals s))))"

text \<open>
  \<^verbatim>\<open>astype('boolean')\<close> on a column of objects: accepted when the cells that are not
  missing are all booleans, or all numbers among 0 and 1; \<^verbatim>\<open>TypeError\<close> otherwise.
  Missing cells become \<^verbatim>\<open>pd.NA\<close>.
\<close>

fun boolean_cell :: "cell \<Rightarrow> cell" where
  "boolean_cell (PyBool b) = PyBool b"
| "boolean_cell (PyInt i) = PyBool (i = 1)"
| "boolean_cell (PyFloat r) = PyBool (r = 1)"
| "boolean_cell v = NA"

definition astype_boolean :: "series \<Rightarrow> error + series" where
  "astype_boolean s =
     (let present = filter (\<lambda>v. \<not> is_null v) (vals s)
      in if list_all is_bool present
            \<or> list_all (\<lambda>v. (is_int v \<or> is_float v) \<and> num_val v \<in> {Some 0, Some 1}) present
         then Inr (Series Boolean (map boolean_cell (vals s)))
         else Inl TypeError)"

definition bool_conv :: "pylib \<Rightarrow> series \<Rightarrow> error + series" where
  "bool_conv L s =
     (case map_object L boolMap s of
        Inl e \<Rightarrow> Inl e
      | Inr mapped \<Rightarrow> astype_boolean mapped)"

text \<open>
  \<^verbatim>\<open>.replace('', np.nan).astype(float)\<close>: the empty text becomes \<^verbatim>\<open>NaN\<close>, then
  every cell goes through \<^verbatim>\<open>float(v)\<close>; \<^verbatim>\<open>None\<close> converts to \<^verbatim>\<open>NaN\<close>, text that is no
  float literal raises \<^verbatim>\<open>ValueError\<close>, an integer beyond the float range raises
  \<^verbatim>\<open>OverflowError\<close>.
\<close>

definition replace_empty :: "series \<Rightarrow> series" where
  "replace_empty s = Series (dtype s) (map (\<lambda>v. if v = PyStr '''' then NaN else v) (vals s))"

fun float_of_cell :: "pylib \<Rightarrow> cell \<Rightarrow> error + cell" where
  "float_of_cell L (PyFloat r) = Inr (PyFloat r)"
| "float_of_cell L (PyInf b) = Inr (PyInf b)"
| "float_of_cell L (PyInt i) = py_float i"
| "float_of_cell L (PyBool b) = Inr (PyFloat (if b then 1 else 0))"
| "float_of_cell L (PyStr s) =
     (case float_of_str L s of
        None \<Rightarrow> Inl ValueError
      | Some (IntLit i) \<Rightarrow>
          Inr (if float_overflow i then PyInf (0 < i) else PyFloat (real_of_int (round_double i)))
      | Some (FloatLit r) \<Rightarrow> Inr (PyFloat r)
      | Some (InfLit b) \<Rightarrow> Inr (PyInf b)
      | Some NanLit \<Rightarrow> Inr NaN)"
| "float_of_cell L PyNone = Inr NaN"
| "float_of_cell L NaN = Inr NaN"
| "float_of_cell L _ = Inl TypeError"

definition astype_float :: "pylib \<Rightarrow> series \<Rightarrow> error + series" where
  "astype_float L s =
     (case mapM (float_of_cell L) (vals s) of
        Inl e \<Rightarrow> Inl e
      | Inr vs \<Rightarrow> Inr (Series Float64 vs))"

definition float_conv :: "pylib \<Rightarrow> series \<Rightarrow> error + series" where
  "float_conv L s = astype_float L (replace_empty s)"

text \<open>\<^verbatim>\<open>.dt.normalize()\<close>: the time of day is dropped.\<close>

fun normalize :: "cell \<Rightarrow> cell" where
  "normalize (Timestamp t) = Timestamp (86400 * real_of_int \<lfloor>t / 86400\<rfloor>)"
| "normalize v = v"

definition date_conv :: "pylib \<Rightarrow> series \<Rightarrow> error + series" where
  "date_conv L s =
     (case to_datetime L (vals s) of
        None \<Rightarrow> Inl ValueError
      | Some ts \<Rightarrow>
          Inr (Series Datetime64
                 (map (\<lambda>t. normalize (case t of None \<Rightarrow> NaT | Some r \<Rightarrow> Timestamp r)) ts)))"

text \<open>\<^verbatim>\<open>pd.to_datetime(col, unit='s').dt.normalize()\<close> on the numbers that
  \<^verbatim>\<open>pd.to_numeric\<close> left: seconds since the epoch, within the 64-bit nanosecond range.\<close>

fun epoch_cell :: "cell \<Rightarrow> error + cell" where
  "epoch_cell (PyInt i) =
     (if \<bar>real_of_int i\<bar> * 10 ^ 9 < 2 ^ 63 then Inr (Timestamp (real_of_int i)) else Inl ValueError)"
| "epoch_cell (PyFloat r) =
     (if \<bar>r\<bar> * 10 ^ 9 < 2 ^ 63 then Inr (Timestamp r) else Inl ValueError)"
| "epoch_cell (PyInf b) = Inl ValueError"
| "epoch_cell (PyBool b) = Inl TypeError"
| "epoch_cell (PyStr s) = Inl ValueError"
| "epoch_cell (Timestamp t) = Inr (Timestamp t)"
| "epoch_cell v = Inr NaT"

definition epoch_conv :: "series \<Rightarrow> error + series" where
  "epoch_conv s =
     (case mapM epoch_cell (vals s) of
        Inl e \<Rightarrow> Inl e
      | Inr vs \<Rightarrow> Inr (Series Datetime64 (map normalize vs)))"

text \<open>
  \<^verbatim>\<open>.str.extract(r'(\d+\.?\d*)').astype(float)\<close>: the first run of digits, with a
  point and the digits after it when they follow at once. The \<^verbatim>\<open>.str\<close> accessor raises
  \<^verbatim>\<open>AttributeError\<close> on a column that holds only numbers or only booleans.
\<close>

definition is_digit :: "char \<Rightarrow> bool" where
  "is_digit c = (c \<in> set ''0123456789'')"

definition first_number :: "string \<Rightarrow> string option" where
  "first_number s =
     (let t = dropWhile (\<lambda>c. \<not> is_digit c) s
      in if t = [] then None
         else
           let whole = takeWhile is_digit t;
               r = dropWhile is_digit t
           in (case r of
                 [] \<Rightarrow> Some whole
               | c # r' \<Rightarrow>
                   if c = CHR ''.'' then Some (whole @ [c] @ takeWhile is_digit r')
                   else Some whole))"

fun extract_cell :: "cell \<Rightarrow> cell" where
  "extract_cell (PyStr s) = (case first_number s of None \<Rightarrow> NaN | Some t \<Rightarrow> PyStr t)"
| "extract_cell v = NaN"

definition str_accessor_ok :: "series \<Rightarrow> bool" where
  "str_accessor_ok s =
     (let present = filter (\<lambda>v. \<not> is_null v) (vals s)
      in if dtype s \<in> {Object, StringDtype, Category}
         then (if present = [] then True
               else if list_all (\<lambda>v. is_int v \<or> is_float v) present then False
               else if list_all is_bool present then False
               else True)
         else False)"

definition extract_conv :: "pylib \<Rightarrow> series \<Rightarrow> error + series" where
  "extract_conv L s =
     (if str_accessor_ok s
      then astype_float L (Series Object (map extract_cell (vals s)))
      else Inl AttributeError)"


subsection \<open>The column schema\<close>

text \<open>
  \<^verbatim>\<open>dtypeConv\<close> is a sequence of assignments, each converting one column
  (\<^verbatim>\<open>df[df.columns[i]] = df.iloc[:, i]...\<close>) or a slice of columns
  (\<^verbatim>\<open>df[df.columns[a:b]] = df.iloc[:, a:b]...\<close>). Indexing one column beyond the table
  raises \<^verbatim>\<open>IndexError\<close>; a slice is cut to the table. The list below is lines 189 to 217
  of the source, one entry a line, in order.
\<close>

datatype conv =
    AsInt
  | AsCategory
  | AsString
  | BoolMap
  | ToDate
  | FloatConv
  | ToNumeric
  | EpochDate
  | ExtractFloat

datatype target = Col nat | Slice nat nat

definition column_schema :: "(target \<times> conv) list" where
  "column_schema =
     [(Slice 0 2, AsInt),
      (Col 2, AsCategory),
      (Col 3, AsInt),
      (Slice 4 7, AsString),
      (Slice 7 12, AsCategory),
      (Slice 12 18, BoolMap),
      (Col 18, AsCategory),
      (Col 19, ToDate),
      (Slice 20 22, BoolMap),
      (Col 22, AsCategory),
      (Slice 23 25, FloatConv),
      (Col 25, AsCategory),
      (Col 26, BoolMap),
      (Slice 27 30, AsCategory),
      (Slice 30 32, BoolMap),
      (Col 32, ToDate),
      (Slice 33 34, AsCategory),
      (Col 34, AsString),
      (Col 35, ToNumeric),
      (Col 35, EpochDate),
      (Col 36, AsCategory),
      (Slice 37 40, AsString),
      (Col 40, ExtractFloat),
      (Slice 41 56, AsCategory),
      (Slice 56 94, BoolMap),
      (Slice 94 97, AsString),
      (Col 97, AsInt),
      (Slice 98 103, AsString),
      (Slice 103 105, BoolMap)]"

fun apply_conv :: "pylib \<Rightarrow> conv \<Rightarrow> series \<Rightarrow> error + series" where
  "apply_conv L AsInt s = astype_int L s"
| "apply_conv L AsCategory s = Inr (astype_category s)"
| "apply_conv L AsString s = Inr (astype_string L s)"
| "apply_conv L BoolMap s = bool_conv L s"
| "apply_conv L ToDate s = date_conv L s"
| "apply_conv L FloatConv s = float_conv L s"
| "apply_conv L ToNumeric s = to_numeric_coerce L s"
| "apply_conv L EpochDate s = epoch_conv s"
| "apply_conv L ExtractFloat s = extract_conv L s"

fun covers :: "target \<Rightarrow> nat \<Rightarrow> bool" where
  "covers (Col i) j = (j = i)"
| "covers (Slice a b) j = (a \<le> j \<and> j < b)"

fun in_table :: "target \<Rightarrow> nat \<Rightarrow> bool" where
  "in_table (Col i) n = (i < n)"
| "in_table (Slice a b) n = True"

definition assign :: "pylib \<Rightarrow> target \<Rightarrow> conv \<Rightarrow> dataframe \<Rightarrow> error + dataframe" where
  "assign L t c df =
     (if \<not> in_table t (length df) then Inl IndexError
      else
        mapM (\<lambda>(j, name, s).
                if covers t j
                then (case apply_conv L c s of Inl e \<Rightarrow> Inl e | Inr s' \<Rightarrow> Inr (name, s'))
                else Inr (name, s))
          (enumerate 0 df))"

fun run_schema :: "pylib \<Rightarrow> (target \<times> conv) list \<Rightarrow> dataframe \<Rightarrow> error + dataframe" where
  "run_schema L [] df = Inr df"
| "run_schema L ((t, c) # rest) df =
     (case assign L t c df of Inl e \<Rightarrow> Inl e | Inr df' \<Rightarrow> run_schema L rest df')"

subsection \<open>Null normalization\<close>

text \<open>
  \<^verbatim>\<open>df = df.replace({np.nan: None})\<close>. pandas cannot keep \<^verbatim>\<open>None\<close> in a typed column:
  a column that holds a missing value is turned into a column of Python objects and its
  missing values are set to \<^verbatim>\<open>None\<close>; a column without one is not touched. A
  categorical column replaces among its categories only, which never hold a missing value,
  so it keeps its type and its missing code.
\<close>

definition replace_nan_none_col :: "series \<Rightarrow> series" where
  "replace_nan_none_col s =
     (if dtype s \<noteq> Category \<and> list_ex is_null (vals s)
      then Series Object (map (\<lambda>v. if is_null v then PyNone else v) (vals s))
      else s)"

definition replace_nan_none :: "dataframe \<Rightarrow> dataframe" where
  "replace_nan_none df = map (\<lambda>(name, s). (name, replace_nan_none_col s)) df"

text \<open>
  \<^verbatim>\<open>
  for col in df.select_dtypes(include=['float']).columns: # turns None in floats into 0
      df[col] = df[col].replace(to_replace=[None, np.nan], value=0)
  \<close>
  The loop visits the columns whose type is float at that moment.
\<close>

definition zero_nulls :: "series \<Rightarrow> series" where
  "zero_nulls s = Series (dtype s) (map (\<lambda>v. if is_null v then PyFloat 0 else v) (vals s))"

definition zero_float_nulls :: "dataframe \<Rightarrow> dataframe" where
  "zero_float_nulls df =
     map (\<lambda>(name, s). if dtype s = Float64 then (name, zero_nulls s) else (name, s)) df"

definition dtypeConv :: "pylib \<Rightarrow> dataframe \<Rightarrow> error + dataframe" where
  "dtypeConv L df =
     (case run_schema L column_schema df of
        Inl e \<Rightarrow> Inl e
      | Inr df1 \<Rightarrow> Inr (zero_float_nulls (replace_nan_none df1)))"

text \<open>The conversions the schema applies to the column at position \<open>j\<close>, in the order
  of the source, and their run on one column.\<close>

definition conversions_at :: "(target \<times> conv) list \<Rightarrow> nat \<Rightarrow> conv list" where
  "conversions_at sts j = map snd (filter (\<lambda>(t, c). covers t j) sts)"

fun apply_convs :: "pylib \<Rightarrow> conv list \<Rightarrow> series \<Rightarrow> error + series" where
  "apply_convs L [] s = Inr s"
| "apply_convs L (c # cs) s =
     (case apply_conv L c s of Inl e \<Rightarrow> Inl e | Inr s' \<Rightarrow> apply_convs L cs s')"

definition bool_typed :: "nat \<Rightarrow> bool" where
  "bool_typed j = (conversions_at column_schema j = [BoolMap])"

definition float_typed :: "nat \<Rightarrow> bool" where
  "float_typed j = (conversions_at column_schema j = [FloatConv])"

subsection \<open>A library instance for closed examples\<close>

text \<open>
  An instance of the text routines that reads plain decimal literals: an optional
  minus sign, digits, and for floats a point and the digits after it. It prints integers and
  booleans, and reads as dates only missing cells. It accepts less than Python does and
  never accepts what Python rejects. Its type inference walks the column from the top
  and stops at the first cell that makes the column one of objects: a text, a time, or
  an integer outside the 64-bit ranges that still has a float.
\<close>

definition digit_val :: "char \<Rightarrow> nat" where
  "digit_val c = of_char c - 48"

definition nat_of_digits :: "string \<Rightarrow> nat" where
  "nat_of_digits ds = foldl (\<lambda>n c. 10 * n + digit_val c) 0 ds"

definition all_digits :: "string \<Rightarrow> bool" where
  "all_digits ds = (ds \<noteq> [] \<and> list_all is_digit ds)"

definition unsigned_lit :: "string \<Rightarrow> literal option" where
  "unsigned_lit s =
     (let whole = takeWhile (\<lambda>c. c \<noteq> CHR ''.'') s;
          rest = dropWhile (\<lambda>c. c \<noteq> CHR ''.'') s
      in if \<not> all_digits whole then None
         else if rest = [] then Some (IntLit (int (nat_of_digits whole)))
         else if list_all is_digit (tl rest)
         then Some (FloatLit (real (nat_of_digits whole)
                      + real (nat_of_digits (tl rest)) / 10 ^ length (tl rest)))
         else None)"

fun negate :: "literal \<Rightarrow> literal" where
  "negate (IntLit i) = IntLit (- i)"
| "negate (FloatLit r) = FloatLit (- r)"
| "negate (InfLit b) = InfLit (\<not> b)"
| "negate NanLit = NanLit"

definition decimal_lit :: "string \<Rightarrow> literal option" where
  "decimal_lit s =
     (case s of
        [] \<Rightarrow> None
      | c # r \<Rightarrow> if c = CHR ''-'' then map_option negate (unsigned_lit r) else unsigned_lit s)"

definition decimal_int :: "string \<Rightarrow> int option" where
  "decimal_int s = (case decimal_lit s of Some (IntLit i) \<Rightarrow> Some i | _ \<Rightarrow> None)"

fun digits_of :: "nat \<Rightarrow> nat \<Rightarrow> string" where
  "digits_of 0 n = []"
| "digits_of (Suc k) n =
     (if n < 10 then [char_of (48 + n)] else digits_of k (n div 10) @ [char_of (48 + n mod 10)])"

fun print_cell :: "cell \<Rightarrow> string" where
  "print_cell (PyInt i) =
     (if i < 0 then CHR ''-'' # digits_of (Suc (nat (- i))) (nat (- i))
      else digits_of (Suc (nat i)) (nat i))"
| "print_cell (PyBool b) = (if b then ''True'' else ''False'')"
| "print_cell (PyStr s) = s"
| "print_cell v = []"

definition missing_dates :: "cell list \<Rightarrow> real option list option" where
  "missing_dates vs = (if list_all is_null vs then Some (map (\<lambda>v. None) vs) else None)"

fun settles_object :: "cell \<Rightarrow> bool" where
  "settles_object (PyStr s) = True"
| "settles_object (Timestamp t) = True"
| "settles_object (PyInt i) = (\<not> in_int64 i \<and> \<not> in_uint64 i)"
| "settles_object v = False"

fun reaches_huge :: "cell list \<Rightarrow> bool" where
  "reaches_huge [] = False"
| "reaches_huge (v # vs) =
     (if huge v then True else if settles_object v then False else reaches_huge vs)"

definition decimal_lib :: pylib where
  "decimal_lib =
     \<lparr>int_of_str = decimal_int,
      float_of_str = decimal_lit,
      numeric_of_str = decimal_lit,
      str_of_cell = print_cell,
      to_datetime = missing_dates,
      inference_reaches_huge = reaches_huge\<rparr>"


text \<open>
  A table in the layout \<^verbatim>\<open>dtypeConv\<close> expects: 105 columns of three records each, as
  \<^verbatim>\<open>pd.DataFrame\<close> builds it from parsed JSON lines (columns of Python objects). The
  argument is the cell of the third record in column 23, a float column.
\<close>

definition kind_of :: "nat \<Rightarrow> conv" where
  "kind_of j = (case conversions_at column_schema j of [] \<Rightarrow> AsString | c # r \<Rightarrow> c)"

fun sample_cells :: "conv \<Rightarrow> cell list" where
  "sample_cells AsInt = [PyInt 42, PyStr ''99'', PyFloat 7]"
| "sample_cells AsCategory = [PyStr ''Dog'', PyStr ''Cat'', PyNone]"
| "sample_cells AsString = [PyStr ''Rex'', PyInt 5, PyNone]"
| "sample_cells BoolMap = [PyStr ''Yes'', PyStr ''No'', PyStr ''maybe'']"
| "sample_cells ToDate = [PyNone, PyNone, PyNone]"
| "sample_cells FloatConv = [PyStr ''1.5'', PyStr '''', PyNone]"
| "sample_cells ToNumeric = [PyInt 86401, PyStr ''90'', PyStr ''n/a'']"
| "sample_cells EpochDate = [PyInt 86401, PyStr ''90'', PyStr ''n/a'']"
| "sample_cells ExtractFloat = [PyStr ''about 12.5 lbs'', PyStr ''unknown'', PyNone]"

definition sample_name :: "nat \<Rightarrow> string" where
  "sample_name j = (if j = 1 then ''animalID'' else ''field'' @ print_cell (PyInt (int j)))"

definition sample_frame :: "cell \<Rightarrow> dataframe" where
  "sample_frame x =
     map (\<lambda>j. (sample_name j,
                Series Object (if j = 23 then take 2 (sample_cells FloatConv) @ [x]
                               else sample_cells (kind_of j))))
       [0..<105]"

text \<open>The same table with the cell of the first record in column 12, a boolean
  column, as the argument; the other two records read \<^verbatim>\<open>"Yes"\<close> and \<^verbatim>\<open>"No"\<close> there.\<close>

definition tristate_frame :: "cell \<Rightarrow> dataframe" where
  "tristate_frame x =
     (sample_frame PyNone)[12 := (sample_name 12, Series Object [x, PyStr ''Yes'', PyStr ''No''])]"

subsection \<open>The schema, column by column\<close>

text \<open>What the schema does to the column at position \<open>j\<close>: the conversions of the
  entries that cover \<open>j\<close>, in the order of the source.\<close>

fun col_run :: "pylib \<Rightarrow> (target \<times> conv) list \<Rightarrow> nat \<Rightarrow> series \<Rightarrow> error + series" where
  "col_run L [] j s = Inr s"
| "col_run L ((t, c) # rest) j s =
     (if covers t j
      then (case apply_conv L c s of Inl e \<Rightarrow> Inl e | Inr s' \<Rightarrow> col_run L rest j s')
      else col_run L rest j s)"

text \<open>The two closing statements of \<^verbatim>\<open>dtypeConv\<close> on one column.\<close>

definition normalize_nulls :: "series \<Rightarrow> series" where
  "normalize_nulls s =
     (let s' = replace_nan_none_col s in if dtype s' = Float64 then zero_nulls s' else s')"

text \<open>
  The tri-state mapping in the words of the specification: the literal \<^verbatim>\<open>"Yes"\<close> is
  true, \<^verbatim>\<open>"No"\<close> is false, everything else is unknown.
\<close>

definition tristate :: "cell \<Rightarrow> cell" where
  "tristate v =
     (if v = PyStr ''Yes'' then PyBool True else if v = PyStr ''No'' then PyBool False else NA)"

text \<open>
  A cell the cast of a float column accepts: \<^verbatim>\<open>.replace('', np.nan).astype(float)\<close>
  returns a float for it.
\<close>

definition float_castable :: "pylib \<Rightarrow> cell \<Rightarrow> bool" where
  "float_castable L v =
     (case float_of_cell L (if v = PyStr '''' then NaN else v) of
        Inl e \<Rightarrow> False
      | Inr y \<Rightarrow> True)"

text \<open>
  Vocabulary for the identifier filter: an identifier coerces when \<^verbatim>\<open>pd.to_numeric\<close>
  reads a number from it, and the kept rows of a table are the positions of the records
  whose identifier, the cell in column 1, coerces.
\<close>

definition coerces :: "pylib \<Rightarrow> cell \<Rightarrow> bool" where
  "coerces L v = (case numeric_coerce L v of Inl e \<Rightarrow> False | Inr c \<Rightarrow> \<not> is_null c)"

definition kept_rows :: "pylib \<Rightarrow> dataframe \<Rightarrow> nat list" where
  "kept_rows L df = filter (\<lambda>i. coerces L (column df 1 ! i)) [0..<nrows df]"

text \<open>Three records of a feed; the second carries a placeholder in place of its
  identifier, the first an identifier of 54 bits (\<open>2 ^ 53 + 1\<close>).\<close>

definition raw_pets :: dataframe where
  "raw_pets =
     [(''orgID'', Series Object [PyInt 7, PyInt 7, PyInt 8]),
      (''animalID'', Series Object [PyInt 9007199254740993, PyStr ''image-only'', PyStr ''99'']),
      (''name'', Series Object [PyStr ''Rex'', PyStr ''IMG_0042'', PyStr ''Tom''])]"

text \<open>Two records of a feed; the identifier of the first is an integer of 401 digits.\<close>

definition huge_pets :: dataframe where
  "huge_pets =
     [(''orgID'', Series Object [PyInt 7, PyInt 7]),
      (''animalID'', Series Object [PyInt (10 ^ 400), PyInt 5]),
      (''name'', Series Object [PyStr ''Rex'', PyStr ''Tom''])]"

section \<open>Lookup tables: \<^verbatim>\<open>schemaConv\<close>\<close>

text \<open>
  The categories of a categorical column are its distinct values, the missing ones left
  out. \<^verbatim>\<open>astype('category')\<close> in \<^verbatim>\<open>dtypeConv\<close> builds them from the column and no row
  is removed afterwards, so they are read off the values here. Distinct is meant as
  Python means it: \<^verbatim>\<open>1\<close>, \<^verbatim>\<open>1.0\<close> and \<^verbatim>\<open>True\<close> are one value.
\<close>

definition py_unique :: "cell list \<Rightarrow> cell list" where
  "py_unique xs = foldl (\<lambda>seen x. if list_ex (\<lambda>y. py_eq y x) seen then seen else seen @ [x]) [] xs"

definition cat_categories :: "series \<Rightarrow> cell list" where
  "cat_categories s = py_unique (filter (\<lambda>v. \<not> is_null v) (vals s))"

text \<open>
  \<^verbatim>\<open>sorted(values)\<close>. Python orders text by code point, which is the order of the bytes
  of its UTF-8 encoding, numbers by value (an infinity below or above every finite
  one) and times by instant; comparing values of
  two of these kinds raises \<^verbatim>\<open>TypeError\<close>, and a sort of two or more values that are not
  of one kind has to compare such a pair. The sort is stable.
\<close>

fun str_key :: "cell \<Rightarrow> string" where
  "str_key (PyStr s) = s"
| "str_key v = []"

fun num_key :: "cell \<Rightarrow> int \<times> real" where
  "num_key (PyBool b) = (0, if b then 1 else 0)"
| "num_key (PyInt i) = (0, real_of_int i)"
| "num_key (PyFloat r) = (0, r)"
| "num_key (PyInf b) = (if b then 1 else - 1, 0)"
| "num_key (Timestamp t) = (0, t)"
| "num_key v = (0, 0)"

fun is_time :: "cell \<Rightarrow> bool" where
  "is_time (Timestamp t) = True"
| "is_time v = False"

definition py_sorted :: "cell list \<Rightarrow> error + cell list" where
  "py_sorted xs =
     (if length xs \<le> 1 then Inr xs
      else if list_all is_str xs then Inr (sort_key str_key xs)
      else if list_all (\<lambda>v. is_int v \<or> is_float v \<or> is_bool v) xs then Inr (sort_key num_key xs)
      else if list_all is_time xs then Inr (sort_key num_key xs)
      else Inl TypeError)"

text \<open>The type pandas infers for a column built from a list of Python values.\<close>

fun as_float :: "cell \<Rightarrow> cell" where
  "as_float (PyInt i) = PyFloat (real_of_int (round_double i))"
| "as_float PyNone = NaN"
| "as_float v = v"

definition infer_series :: "cell list \<Rightarrow> series" where
  "infer_series vs =
     (if vs = [] then Series Object vs
      else if list_all is_bool vs then Series Bool vs
      else if list_all is_int vs then Series Int64 vs
      else if list_all (\<lambda>v. is_int v \<or> is_float v \<or> v = NaN \<or> v = PyNone) vs
              \<and> list_ex (\<lambda>v. v \<noteq> PyNone) vs
      then Series Float64 (map as_float vs)
      else Series Object vs)"

text \<open>
  \<^verbatim>\<open>pd.DataFrame({'id': range(1, len(uniqueVals)+1), 'value': uniqueVals})\<close>
\<close>

definition lookup_df :: "cell list \<Rightarrow> dataframe" where
  "lookup_df uniqueVals =
     [(''id'', Series Int64 (map PyInt [1..int (length uniqueVals)])),
      (''value'', infer_series uniqueVals)]"

text \<open>A Python \<^verbatim>\<open>dict\<close> keyed by text, and \<^verbatim>\<open>df[col] = s\<close>: an existing key keeps its
  place, a new key goes to the end.\<close>

fun put :: "(string \<times> 'v) list \<Rightarrow> string \<Rightarrow> 'v \<Rightarrow> (string \<times> 'v) list" where
  "put [] k v = [(k, v)]"
| "put ((k', v') # d) k v = (if k' = k then (k, v) # d else (k', v') # put d k v)"

text \<open>\<^verbatim>\<open>[col for col in df.select_dtypes(include='category')]\<close>\<close>

definition catList :: "dataframe \<Rightarrow> string list" where
  "catList df = map fst (filter (\<lambda>(name, s). dtype s = Category) df)"

text \<open>
  \<^verbatim>\<open>
  lookupTables = {}
  for col in catList:
      uniqueVals = sorted(df[col].cat.categories)
      if (len(uniqueVals)>5):
          lookup_df = pd.DataFrame({...})
          lookupTables[col] = lookup_df
  \<close>
\<close>

fun build_lookups ::
  "dataframe \<Rightarrow> string list \<Rightarrow> (string \<times> dataframe) list \<Rightarrow> error + (string \<times> dataframe) list"
where
  "build_lookups df [] lookupTables = Inr lookupTables"
| "build_lookups df (col # cols) lookupTables =
     (case map_of df col of
        None \<Rightarrow> Inl KeyError
      | Some s \<Rightarrow>
          (case py_sorted (cat_categories s) of
             Inl e \<Rightarrow> Inl e
           | Inr uniqueVals \<Rightarrow>
               build_lookups df cols
                 (if length uniqueVals > 5 then put lookupTables col (lookup_df uniqueVals)
                  else lookupTables)))"

text \<open>
  \<^verbatim>\<open>df[col].map(mapping)\<close> on a categorical column maps the categories. When every
  category gets a value of its own the column stays categorical, its missing cells stay
  missing; otherwise the mapped values come back as a plain column, \<^verbatim>\<open>NaN\<close> where the
  dictionary has no key.
\<close>

definition map_categorical :: "(cell \<times> cell) list \<Rightarrow> series \<Rightarrow> series" where
  "map_categorical d s =
     (let new_categories = map (map_cell d) (cat_categories s);
          out = map (\<lambda>v. if is_null v then NaN else map_cell d v) (vals s)
      in if length (py_unique new_categories) = length new_categories
            \<and> list_all (\<lambda>v. \<not> is_null v) new_categories
         then Series Category out
         else infer_series out)"

text \<open>\<^verbatim>\<open>astype("Int32")\<close>: the nullable 32-bit integers; a missing cell is \<^verbatim>\<open>pd.NA\<close>.\<close>

fun int32_cell :: "cell \<Rightarrow> error + cell" where
  "int32_cell (PyInt i) =
     (if - (2 ^ 31) \<le> i \<and> i < 2 ^ 31 then Inr (PyInt i) else Inl OverflowError)"
| "int32_cell (PyBool b) = Inr (PyInt (if b then 1 else 0))"
| "int32_cell (PyFloat r) =
     (if r = real_of_int \<lfloor>r\<rfloor> \<and> - (2 ^ 31) \<le> \<lfloor>r\<rfloor> \<and> \<lfloor>r\<rfloor> < 2 ^ 31 then Inr (PyInt \<lfloor>r\<rfloor>)
      else Inl TypeError)"
| "int32_cell (PyInf b) = Inl TypeError"
| "int32_cell (PyStr s) = Inl ValueError"
| "int32_cell (Timestamp t) = Inl TypeError"
| "int32_cell v = Inr NA"

definition astype_Int32 :: "series \<Rightarrow> error + series" where
  "astype_Int32 s =
     (case mapM int32_cell (vals s) of
        Inl e \<Rightarrow> Inl e
      | Inr vs \<Rightarrow> Inr (Series Int32 vs))"

text \<open>
  \<^verbatim>\<open>
  for col, lookup_df in lookupTables.items():
      mapping = dict(zip(lookup_df['value'], lookup_df['id']))
      df[col] = df[col].map(mapping)
      df[col] = df[col].astype("Int32")
  \<close>
\<close>

definition mapping_of :: "dataframe \<Rightarrow> error + (cell \<times> cell) list" where
  "mapping_of lookup =
     (case (map_of lookup ''value'', map_of lookup ''id'') of
        (Some v, Some i) \<Rightarrow> Inr (py_dict [] (zip (vals v) (vals i)))
      | _ \<Rightarrow> Inl KeyError)"

fun convert_columns :: "(string \<times> dataframe) list \<Rightarrow> dataframe \<Rightarrow> error + dataframe" where
  "convert_columns [] df = Inr df"
| "convert_columns ((col, lookup) # rest) df =
     (case mapping_of lookup of
        Inl e \<Rightarrow> Inl e
      | Inr mapping \<Rightarrow>
          (case map_of df col of
             None \<Rightarrow> Inl KeyError
           | Some s \<Rightarrow>
               (case astype_Int32 (map_categorical mapping s) of
                  Inl e \<Rightarrow> Inl e
                | Inr s' \<Rightarrow> convert_columns rest (put df col s'))))"

text \<open>
  \<^verbatim>\<open>df.to_dict("records")\<close>: one dictionary a row. The mapping contract is the JSON
  document \<^verbatim>\<open>{col: lookupTables[col].to_dict(orient='records') for col in lookupTables}\<close>.
  \<^verbatim>\<open>json.dump\<close> writes numbers, text, booleans and \<^verbatim>\<open>None\<close>, and \<^verbatim>\<open>json.load\<close> reads them
  back as they were; any other value raises \<^verbatim>\<open>TypeError\<close> and leaves a file cut short.
\<close>

type_synonym pyrecord = "(string \<times> cell) list"

definition to_dict_records :: "dataframe \<Rightarrow> pyrecord list" where
  "to_dict_records df = map (\<lambda>i. map (\<lambda>(name, s). (name, vals s ! i)) df) [0..<nrows df]"

type_synonym contract = "(string \<times> pyrecord list) list"

datatype json_file = NoFile | Garbled | Document contract

fun json_value :: "cell \<Rightarrow> bool" where
  "json_value NA = False"
| "json_value NaT = False"
| "json_value (Timestamp t) = False"
| "json_value v = True"

definition serializable :: "contract \<Rightarrow> bool" where
  "serializable doc = list_all (\<lambda>(col, recs). list_all (list_all (\<lambda>(k, v). json_value v)) recs) doc"

definition serialize :: "(string \<times> dataframe) list \<Rightarrow> contract" where
  "serialize lookupTables = map (\<lambda>(col, t). (col, to_dict_records t)) lookupTables"

text \<open>
  \<^verbatim>\<open>schemaConv\<close> returns the converted table and the lookup tables and overwrites
  \<^verbatim>\<open>lookupTables.json\<close>; the state of that file is passed in and out.
\<close>

definition schemaConv ::
  "json_file \<Rightarrow> dataframe \<Rightarrow> (error + dataframe \<times> (string \<times> dataframe) list) \<times> json_file"
where
  "schemaConv file df =
     (case build_lookups df (catList df) [] of
        Inl e \<Rightarrow> (Inl e, file)
      | Inr lookupTables \<Rightarrow>
          (case convert_columns lookupTables df of
             Inl e \<Rightarrow> (Inl e, file)
           | Inr df' \<Rightarrow>
               if serializable (serialize lookupTables)
               then (Inr (df', lookupTables), Document (serialize lookupTables))
               else (Inl TypeError, Garbled)))"

section \<open>Resolving against the contract: \<^verbatim>\<open>schemaConv2\<close>\<close>

text \<open>\<^verbatim>\<open>pd.DataFrame(records)\<close>: the columns are the keys in the order they first appear,
  a key a record lacks reads \<^verbatim>\<open>NaN\<close>.\<close>

definition DataFrame_of_records :: "pyrecord list \<Rightarrow> dataframe" where
  "DataFrame_of_records recs =
     map (\<lambda>c. (c, infer_series (map (\<lambda>r. case map_of r c of None \<Rightarrow> NaN | Some v \<Rightarrow> v) recs)))
       (rev (remdups (rev (concat (map (map fst) recs)))))"

text \<open>
  \<^verbatim>\<open>
  with open("lookupTables.json", "r") as f:
      loaded = json.load(f)
      lookupTables = {col: pd.DataFrame(loaded[col]) for col in loaded}
  \<close>
\<close>

definition load_lookups :: "json_file \<Rightarrow> error + (string \<times> dataframe) list" where
  "load_lookups file =
     (case file of
        NoFile \<Rightarrow> Inl FileNotFoundError
      | Garbled \<Rightarrow> Inl ValueError
      | Document doc \<Rightarrow> Inr (map (\<lambda>(col, recs). (col, DataFrame_of_records recs)) doc))"

text \<open>
  \<^verbatim>\<open>
  for col in catList:
      if col in lookupTables:
          mapping = dict(zip(lookupTables[col]['value'], lookupTables[col]['id']))
          df[col] = df[col].map(mapping)
  df = df.replace({np.nan: None})
  \<close>
\<close>

fun resolve_columns ::
  "(string \<times> dataframe) list \<Rightarrow> string list \<Rightarrow> dataframe \<Rightarrow> error + dataframe"
where
  "resolve_columns lookupTables [] df = Inr df"
| "resolve_columns lookupTables (col # cols) df =
     (case map_of lookupTables col of
        None \<Rightarrow> resolve_columns lookupTables cols df
      | Some lookup \<Rightarrow>
          (case mapping_of lookup of
             Inl e \<Rightarrow> Inl e
           | Inr mapping \<Rightarrow>
               (case map_of df col of
                  None \<Rightarrow> Inl KeyError
                | Some s \<Rightarrow>
                    resolve_columns lookupTables cols (put df col (map_categorical mapping s)))))"

definition schemaConv2 :: "json_file \<Rightarrow> dataframe \<Rightarrow> error + dataframe" where
  "schemaConv2 file df =
     (case load_lookups file of
        Inl e \<Rightarrow> Inl e
      | Inr lookupTables \<Rightarrow>
          (case resolve_columns lookupTables (catList df) df of
             Inl e \<Rightarrow> Inl e
           | Inr df1 \<Rightarrow> Inr (replace_nan_none df1)))"

text \<open>The categorical column of the scenario of the specification, and one with a sixth
  species.\<close>

definition species_df :: dataframe where
  "species_df =
     [(''species'', Series Category
        [PyStr ''Dog'', PyStr ''Cat'', PyStr ''Dog'', PyStr ''Bird'', PyStr ''Cat'',
         PyStr ''Dog'', PyStr ''Fish'', PyStr ''Rabbit''])]"

definition species6_df :: dataframe where
  "species6_df =
     [(''species'', Series Category
        [PyStr ''Dog'', PyStr ''Cat'', PyStr ''Dog'', PyStr ''Bird'', PyStr ''Cat'',
         PyStr ''Dog'', PyStr ''Fish'', PyStr ''Rabbit'', PyStr ''Hamster''])]"

text \<open>The distinct text values of a column in lexicographic order, as the specification
  words the numbering of a lookup table.\<close>

definition distinct_values :: "series \<Rightarrow> cell list" where
  "distinct_values s = map PyStr (sort (remdups (map str_key (filter is_str (vals s)))))"

text \<open>A set of values on which Python's equality is identity (text only, or integers
  only).\<close>

definition eq_like :: "cell set \<Rightarrow> bool" where
  "eq_like S = (\<forall>a\<in>S. \<forall>b\<in>S. py_eq a b \<longleftrightarrow> a = b)"

section \<open>Lemmas on the type coercion stage\<close>

lemma mapM_Inr_iff:
  "mapM f xs = Inr ys \<longleftrightarrow> length ys = length xs \<and> (\<forall>i<length xs. f (xs ! i) = Inr (ys ! i))"
proof (induction xs arbitrary: ys)
  case Nil
  then show ?case by auto
next
  case (Cons x xs)
  show ?case
  proof (cases ys)
    case Nil
    then show ?thesis by (auto split: sum.splits)
  next
    case (Cons y ys')
    then show ?thesis
      using Cons.IH [of ys'] by (auto simp: less_Suc_eq_0_disj split: sum.splits)
  qed
qed

lemma assign_Inr:
  assumes "assign L t c df = Inr df'"
  shows "in_table t (length df) \<and> length df' = length df
     \<and> (\<forall>j<length df. fst (df' ! j) = fst (df ! j)
          \<and> (if covers t j then apply_conv L c (snd (df ! j)) = Inr (snd (df' ! j))
              else snd (df' ! j) = snd (df ! j)))"
proof -
  let ?f = "\<lambda>(j, name, s).
                if covers t j
                then (case apply_conv L c s of Inl e \<Rightarrow> Inl e | Inr s' \<Rightarrow> Inr (name, s'))
                else Inr (name, s)"
  from assms have inb: "in_table t (length df)"
    by (auto simp: assign_def split: if_splits)
  with assms have m: "mapM ?f (enumerate 0 df) = Inr df'"
    by (simp add: assign_def)
  then have len: "length df' = length df"
    by (simp add: mapM_Inr_iff)
  have "fst (df' ! j) = fst (df ! j)
          \<and> (if covers t j then apply_conv L c (snd (df ! j)) = Inr (snd (df' ! j))
              else snd (df' ! j) = snd (df ! j))" if j: "j < length df" for j
  proof -
    from m j have "?f (enumerate 0 df ! j) = Inr (df' ! j)"
      by (simp add: mapM_Inr_iff)
    with j have e: "Inr (df' ! j) = ?f (j, df ! j)"
      by (simp add: nth_enumerate_eq)
    obtain name s where d: "df ! j = (name, s)" by (cases "df ! j")
    from e d show ?thesis
      by (auto split: if_splits sum.splits)
  qed
  with inb len show ?thesis by blast
qed

lemma run_schema_Inr:
  "run_schema L sts df = Inr df' \<Longrightarrow>
     length df' = length df
     \<and> (\<forall>(t, c)\<in>set sts. in_table t (length df))
     \<and> (\<forall>j<length df. fst (df' ! j) = fst (df ! j)
          \<and> col_run L sts j (snd (df ! j)) = Inr (snd (df' ! j)))"
proof (induction sts arbitrary: df)
  case Nil
  then show ?case by simp
next
  case (Cons st sts)
  obtain t0 c0 where st: "st = (t0, c0)" by (cases st)
  from Cons.prems obtain d where a: "assign L t0 c0 df = Inr d" and r: "run_schema L sts d = Inr df'"
    by (auto simp: st split: sum.splits)
  note A = assign_Inr [OF a]
  note R = Cons.IH [OF r]
  from A R have len: "length df' = length df" by simp
  from A R have inb: "\<forall>(t, c)\<in>set (st # sts). in_table t (length df)"
    by (simp add: st)
  have "fst (df' ! j) = fst (df ! j) \<and> col_run L (st # sts) j (snd (df ! j)) = Inr (snd (df' ! j))"
    if j: "j < length df" for j
  proof -
    from A j have jd: "j < length d" by simp
    from R jd have 1: "fst (df' ! j) = fst (d ! j)" "col_run L sts j (snd (d ! j)) = Inr (snd (df' ! j))"
      by auto
    from A j have 2: "fst (d ! j) = fst (df ! j)"
      "if covers t0 j then apply_conv L c0 (snd (df ! j)) = Inr (snd (d ! j))
              else snd (d ! j) = snd (df ! j)"
      by auto
    from 1 2 show ?thesis
      by (cases "covers t0 j") (simp_all add: st)
  qed
  with len inb show ?case by blast
qed

lemma col_run_conversions: "col_run L sts j s = apply_convs L (conversions_at sts j) s"
  by (induction sts arbitrary: s) (auto simp: conversions_at_def split: sum.splits)

lemma py_eq_str [simp]: "py_eq (PyStr a) v \<longleftrightarrow> v = PyStr a"
  by (cases v) (auto simp: py_eq_def)

lemma py_eq_none [simp]: "py_eq PyNone v \<longleftrightarrow> v = PyNone"
  by (cases v) (auto simp: py_eq_def)

lemma map_cell_boolMap:
  "map_cell boolMap v =
     (if v = PyStr ''Yes'' then PyBool True else if v = PyStr ''No'' then PyBool False
      else if v = PyStr '''' \<or> v = PyNone then NA else NaN)"
  by (simp add: map_cell_def boolMap_def)

lemma astype_boolean_boolMap:
  "astype_boolean (Series Object (map (map_cell boolMap) vs))
     = Inr (Series Boolean (map tristate vs))"
proof -
  have 1: "list_all is_bool (filter (\<lambda>v. \<not> is_null v) (map (map_cell boolMap) vs))"
    by (auto simp: list_all_iff map_cell_boolMap)
  have 2: "boolean_cell (map_cell boolMap v) = tristate v" for v
    by (simp add: map_cell_boolMap tristate_def)
  show ?thesis
    using 1 by (simp add: astype_boolean_def 2)
qed

lemma bool_conv_eq:
  "bool_conv L s =
     (if list_ex huge (vals s) \<and> inference_reaches_huge L (vals s) then Inl OverflowError
      else Inr (Series Boolean (map tristate (vals s))))"
  by (simp add: bool_conv_def map_object_def astype_boolean_boolMap)

lemma dtypeConv_Inr:
  assumes "dtypeConv L df = Inr df'"
  shows "length df' = length df \<and> 98 \<le> length df
     \<and> (\<forall>j<length df. fst (df' ! j) = fst (df ! j)
          \<and> (\<exists>s1. col_run L column_schema j (snd (df ! j)) = Inr s1
                 \<and> snd (df' ! j) = normalize_nulls s1))"
proof -
  from assms obtain d where r: "run_schema L column_schema df = Inr d"
    and e: "df' = zero_float_nulls (replace_nan_none d)"
    by (auto simp: dtypeConv_def split: sum.splits)
  note R = run_schema_Inr [OF r]
  have "(Col 97, AsInt) \<in> set column_schema" by (simp add: column_schema_def)
  with R have "in_table (Col 97) (length df)" by blast
  then have n: "98 \<le> length df" by simp
  have len: "length df' = length df" using R e
    by (simp add: zero_float_nulls_def replace_nan_none_def)
  have "fst (df' ! j) = fst (df ! j)
          \<and> (\<exists>s1. col_run L column_schema j (snd (df ! j)) = Inr s1
                 \<and> snd (df' ! j) = normalize_nulls s1)" if j: "j < length df" for j
  proof -
    from R j have jd: "j < length d" and f: "fst (d ! j) = fst (df ! j)"
      and c: "col_run L column_schema j (snd (df ! j)) = Inr (snd (d ! j))" by auto
    obtain name s where d: "d ! j = (name, s)" by (cases "d ! j")
    from jd d have "df' ! j = (name, normalize_nulls s)"
      by (simp add: e zero_float_nulls_def replace_nan_none_def normalize_nulls_def Let_def)
    with f c d show ?thesis by simp
  qed
  with len n show ?thesis by blast
qed

lemma mapM_total:
  "(\<And>x. x \<in> set xs \<Longrightarrow> \<exists>y. f x = Inr y) \<Longrightarrow> \<exists>ys. mapM f xs = Inr ys"
proof (induction xs)
  case Nil
  then show ?case by simp
next
  case (Cons x xs)
  from Cons.prems obtain y where y: "f x = Inr y" by auto
  from Cons obtain ys where "mapM f xs = Inr ys" by auto
  with y show ?case by simp
qed

lemma assign_succeeds:
  assumes "in_table t (length df)"
    and "\<And>j. j < length df \<Longrightarrow> covers t j \<Longrightarrow> \<exists>s'. apply_conv L c (snd (df ! j)) = Inr s'"
  shows "\<exists>df'. assign L t c df = Inr df'"
proof -
  let ?f = "\<lambda>(j, name, s).
                if covers t j
                then (case apply_conv L c s of Inl e \<Rightarrow> Inl e | Inr s' \<Rightarrow> Inr (name, s'))
                else Inr (name, s)"
  have "\<exists>y. ?f x = Inr y" if "x \<in> set (enumerate 0 df)" for x
  proof -
    obtain j name s where x: "x = (j, name, s)" by (cases x)
    from that x have j: "j < length df" and d: "df ! j = (name, s)"
      by (auto simp: in_set_enumerate_eq)
    show ?thesis
    proof (cases "covers t j")
      case True
      with assms(2) [OF j] d obtain s' where "apply_conv L c s = Inr s'" by auto
      with True x show ?thesis by simp
    next
      case False
      with x show ?thesis by simp
    qed
  qed
  then have "\<exists>ys. mapM ?f (enumerate 0 df) = Inr ys" by (rule mapM_total)
  with assms(1) show ?thesis by (simp add: assign_def)
qed

lemma run_schema_succeeds:
  "(\<And>t c. (t, c) \<in> set sts \<Longrightarrow> in_table t (length df)) \<Longrightarrow>
   (\<And>j. j < length df \<Longrightarrow> \<exists>s'. col_run L sts j (snd (df ! j)) = Inr s') \<Longrightarrow>
   \<exists>df'. run_schema L sts df = Inr df'"
proof (induction sts arbitrary: df)
  case Nil
  then show ?case by simp
next
  case (Cons st sts)
  obtain t0 c0 where st: "st = (t0, c0)" by (cases st)
  have "\<exists>s'. apply_conv L c0 (snd (df ! j)) = Inr s'" if "j < length df" "covers t0 j" for j
    using Cons.prems(2) [OF that(1)] that(2) by (auto simp: st split: sum.splits)
  moreover have "in_table t0 (length df)" using Cons.prems(1) [of t0 c0] by (simp add: st)
  ultimately obtain d where a: "assign L t0 c0 df = Inr d"
    using assign_succeeds [of t0 df L c0] by blast
  note A = assign_Inr [OF a]
  have "\<exists>s'. col_run L sts j (snd (d ! j)) = Inr s'" if j: "j < length d" for j
  proof -
    from A j have jd: "j < length df" by simp
    from Cons.prems(2) [OF jd] obtain s' where c: "col_run L (st # sts) j (snd (df ! j)) = Inr s'"
      by blast
    from A jd have 2: "if covers t0 j then apply_conv L c0 (snd (df ! j)) = Inr (snd (d ! j))
              else snd (d ! j) = snd (df ! j)" by blast
    from c 2 show ?thesis by (cases "covers t0 j") (auto simp: st)
  qed
  moreover have "in_table t (length d)" if "(t, c) \<in> set sts" for t c
    using Cons.prems(1) [of t c] that A by simp
  ultimately obtain df' where "run_schema L sts d = Inr df'"
    using Cons.IH [of d] by blast
  with a show ?case by (simp add: st)
qed

lemma dtypeConv_succeeds:
  assumes "98 \<le> length df"
    and "\<And>j. j < length df \<Longrightarrow> \<exists>s'. col_run L column_schema j (snd (df ! j)) = Inr s'"
  shows "\<exists>df'. dtypeConv L df = Inr df'"
proof -
  have "in_table t (length df)" if "(t, c) \<in> set column_schema" for t c
    using that assms(1) by (auto simp: column_schema_def)
  then obtain d where "run_schema L column_schema df = Inr d"
    using run_schema_succeeds [of column_schema df L] assms(2) by blast
  then show ?thesis by (simp add: dtypeConv_def)
qed

lemma schema_ranges:
  "(j::nat) < 105 \<Longrightarrow>
     j < 2 \<or> j = 2 \<or> j = 3 \<or> (4 \<le> j \<and> j < 7) \<or> (7 \<le> j \<and> j < 12) \<or> (12 \<le> j \<and> j < 18)
     \<or> j = 18 \<or> j = 19 \<or> (20 \<le> j \<and> j < 22) \<or> j = 22 \<or> (23 \<le> j \<and> j < 25) \<or> j = 25
     \<or> j = 26 \<or> (27 \<le> j \<and> j < 30) \<or> (30 \<le> j \<and> j < 32) \<or> j = 32 \<or> j = 33 \<or> j = 34
     \<or> j = 35 \<or> j = 36 \<or> (37 \<le> j \<and> j < 40) \<or> j = 40 \<or> (41 \<le> j \<and> j < 56)
     \<or> (56 \<le> j \<and> j < 94) \<or> (94 \<le> j \<and> j < 97) \<or> j = 97 \<or> (98 \<le> j \<and> j < 103)
     \<or> (103 \<le> j \<and> j < 105)"
  by arith

lemma conversions_at_schema:
  assumes "j < 105"
  shows "conversions_at column_schema j = (if j = 35 then [ToNumeric, EpochDate] else [kind_of j])
         \<and> kind_of j \<noteq> EpochDate"
  using schema_ranges [OF assms]
  by (elim disjE) (simp_all add: conversions_at_def column_schema_def kind_of_def)

lemma sample_conversions:
  "apply_conv decimal_lib AsInt (Series Object (sample_cells AsInt))
     = Inr (Series Int64 [PyInt 42, PyInt 99, PyInt 7])"
  "apply_conv decimal_lib AsCategory (Series Object (sample_cells AsCategory))
     = Inr (Series Category [PyStr ''Dog'', PyStr ''Cat'', NaN])"
  "apply_conv decimal_lib AsString (Series Object (sample_cells AsString))
     = Inr (Series StringDtype [PyStr ''Rex'', PyStr ''5'', NA])"
  "apply_conv decimal_lib BoolMap (Series Object (sample_cells BoolMap))
     = Inr (Series Boolean [PyBool True, PyBool False, NA])"
  "apply_conv decimal_lib ToDate (Series Object (sample_cells ToDate))
     = Inr (Series Datetime64 [NaT, NaT, NaT])"
  "apply_conv decimal_lib FloatConv (Series Object (sample_cells FloatConv))
     = Inr (Series Float64 [PyFloat (3 / 2), NaN, NaN])"
  "apply_conv decimal_lib ToNumeric (Series Object (sample_cells ToNumeric))
     = Inr (Series Float64 [PyFloat 86401, PyFloat 90, NaN])"
  "apply_conv decimal_lib EpochDate (Series Float64 [PyFloat 86401, PyFloat 90, NaN])
     = Inr (Series Datetime64 [Timestamp 86400, Timestamp 0, NaT])"
  "apply_conv decimal_lib ExtractFloat (Series Object (sample_cells ExtractFloat))
     = Inr (Series Float64 [PyFloat (25 / 2), NaN, NaN])"
  by code_simp+

lemma sample_frame_nth:
  "j < 105 \<Longrightarrow> sample_frame x ! j =
     (sample_name j, Series Object (if j = 23 then take 2 (sample_cells FloatConv) @ [x]
                               else sample_cells (kind_of j)))"
  by (simp add: sample_frame_def)

lemma sample_frame_length: "length (sample_frame x) = 105"
  by (simp add: sample_frame_def)

lemma sample_column_runs:
  assumes "j < 105"
  shows "\<exists>s'. col_run decimal_lib column_schema j (snd (sample_frame PyNone ! j)) = Inr s'"
proof -
  note C = conversions_at_schema [OF assms]
  show ?thesis
  proof (cases "j = 35")
    case True
    then have "kind_of j = ToNumeric" using C by (simp add: kind_of_def)
    with True C show ?thesis
      by (simp add: col_run_conversions sample_frame_nth sample_conversions
            del: apply_conv.simps sample_cells.simps)
  next
    case False
    show ?thesis
    proof (cases "j = 23")
      case True
      then have k: "kind_of j = FloatConv" by (simp add: kind_of_def conversions_at_def column_schema_def)
      have "take 2 (sample_cells FloatConv) @ [PyNone] = sample_cells FloatConv" by simp
      with True C k show ?thesis
        by (simp add: col_run_conversions sample_frame_nth sample_conversions
              del: apply_conv.simps sample_cells.simps)
    next
      case n23: False
      from C False have c: "conversions_at column_schema j = [kind_of j]" and e: "kind_of j \<noteq> EpochDate"
        by simp_all
      from e show ?thesis
        using assms n23 c
        by (cases "kind_of j")
          (simp_all add: col_run_conversions sample_frame_nth sample_conversions
             del: apply_conv.simps sample_cells.simps)
    qed
  qed
qed

lemma sample_frame_converts: "\<exists>df'. dtypeConv decimal_lib (sample_frame PyNone) = Inr df'"
  by (rule dtypeConv_succeeds) (simp_all add: sample_frame_length sample_column_runs)

lemma zero_nulls_noop: "\<not> list_ex is_null (vals s) \<Longrightarrow> zero_nulls s = s"
  by (cases s) (simp add: zero_nulls_def list_ex_iff map_idI)

lemma normalize_nulls_eq: "normalize_nulls s = replace_nan_none_col s"
  by (auto simp: normalize_nulls_def replace_nan_none_col_def Let_def zero_nulls_noop)

lemma bool_typed_run: "bool_typed j \<Longrightarrow> col_run L column_schema j s = bool_conv L s"
  by (simp add: bool_typed_def col_run_conversions split: sum.splits)

lemma float_typed_run: "float_typed j \<Longrightarrow> col_run L column_schema j s = float_conv L s"
  by (simp add: float_typed_def col_run_conversions split: sum.splits)

lemma tristate_null: "is_null (tristate v) \<longleftrightarrow> v \<noteq> PyStr ''Yes'' \<and> v \<noteq> PyStr ''No''"
  by (simp add: tristate_def)

lemma sample_kinds: "bool_typed 12" "float_typed 23" "kind_of 12 = BoolMap" "kind_of 23 = FloatConv"
  by (simp_all add: bool_typed_def float_typed_def kind_of_def conversions_at_def column_schema_def)

lemma mapM_Inl: "mapM f xs = Inl e \<Longrightarrow> \<exists>x\<in>set xs. f x = Inl e"
  by (induction xs) (auto split: sum.splits)

lemma assign_Inl:
  assumes "assign L t c df = Inl e"
  shows "\<not> in_table t (length df)
     \<or> (\<exists>j<length df. covers t j \<and> apply_conv L c (snd (df ! j)) = Inl e)"
proof (cases "in_table t (length df)")
  case False
  then show ?thesis by simp
next
  case True
  let ?f = "\<lambda>(j, name, s).
                if covers t j
                then (case apply_conv L c s of Inl e \<Rightarrow> Inl e | Inr s' \<Rightarrow> Inr (name, s'))
                else Inr (name, s)"
  from assms True have "mapM ?f (enumerate 0 df) = Inl e" by (simp add: assign_def)
  then obtain x where x: "x \<in> set (enumerate 0 df)" and f: "?f x = Inl e"
    using mapM_Inl by blast
  obtain j name s where xe: "x = (j, name, s)" by (cases x)
  from x xe have j: "j < length df" and d: "df ! j = (name, s)"
    by (auto simp: in_set_enumerate_eq)
  from f xe have "covers t j \<and> apply_conv L c s = Inl e"
    by (auto split: if_splits sum.splits)
  with j d show ?thesis by auto
qed

lemma run_schema_Inl:
  "run_schema L sts df = Inl e \<Longrightarrow>
     (\<exists>(t, c)\<in>set sts. \<not> in_table t (length df))
     \<or> (\<exists>j<length df. col_run L sts j (snd (df ! j)) = Inl e)"
proof (induction sts arbitrary: df)
  case Nil
  then show ?case by simp
next
  case (Cons st sts)
  obtain t0 c0 where st: "st = (t0, c0)" by (cases st)
  show ?case
  proof (cases "assign L t0 c0 df")
    case (Inl e')
    with Cons.prems have "e' = e" by (simp add: st)
    with assign_Inl [OF Inl] show ?thesis by (auto simp: st)
  next
    case (Inr d)
    with Cons.prems have r: "run_schema L sts d = Inl e" by (simp add: st)
    note A = assign_Inr [OF Inr]
    from Cons.IH [OF r] show ?thesis
    proof
      assume "\<exists>(t, c)\<in>set sts. \<not> in_table t (length d)"
      with A show ?thesis by auto
    next
      assume "\<exists>j<length d. col_run L sts j (snd (d ! j)) = Inl e"
      then obtain j where j: "j < length d" and c: "col_run L sts j (snd (d ! j)) = Inl e"
        by blast
      from A j have jd: "j < length df" by simp
      from A jd have 2: "if covers t0 j then apply_conv L c0 (snd (df ! j)) = Inr (snd (d ! j))
              else snd (d ! j) = snd (df ! j)" by blast
      from c 2 have "col_run L (st # sts) j (snd (df ! j)) = Inl e"
        by (cases "covers t0 j") (auto simp: st)
      with jd show ?thesis by blast
    qed
  qed
qed

lemma dtypeConv_Inl:
  assumes "dtypeConv L df = Inl e" and "98 \<le> length df"
  shows "\<exists>j<length df. col_run L column_schema j (snd (df ! j)) = Inl e"
proof -
  from assms(1) have "run_schema L column_schema df = Inl e"
    by (auto simp: dtypeConv_def split: sum.splits)
  moreover have "in_table t (length df)" if "(t, c) \<in> set column_schema" for t c
    using that assms(2) by (auto simp: column_schema_def)
  ultimately show ?thesis using run_schema_Inl [of L column_schema df e] by blast
qed

lemma float_conv_Inr:
  assumes "float_conv L s = Inr s1"
  shows "dtype s1 = Float64 \<and> length (vals s1) = length (vals s)
     \<and> (\<forall>i<length (vals s).
           float_of_cell L (if vals s ! i = PyStr '''' then NaN else vals s ! i) = Inr (vals s1 ! i))"
proof -
  from assms obtain vs where m: "mapM (float_of_cell L) (vals (replace_empty s)) = Inr vs"
    and s1: "s1 = Series Float64 vs"
    by (auto simp: float_conv_def astype_float_def split: sum.splits)
  from m show ?thesis
    by (simp add: mapM_Inr_iff s1 replace_empty_def)
qed

lemma dtypeConv_column:
  assumes "dtypeConv L df = Inr df'" and "j < length df"
  shows "\<exists>s1. col_run L column_schema j (snd (df ! j)) = Inr s1
           \<and> snd (df' ! j) = normalize_nulls s1 \<and> fst (df' ! j) = fst (df ! j)"
  using dtypeConv_Inr [OF assms(1)] assms(2) by blast

lemma sample_name_23: "sample_name 23 = ''field23''"
  by code_simp

lemma sample_float_column:
  "float_conv decimal_lib (Series Object [PyStr ''1.5'', PyStr '''', PyStr ''abc'']) = Inl ValueError"
  by code_simp

lemma sample_frame_other:
  "j < 105 \<Longrightarrow> j \<noteq> 23 \<Longrightarrow> sample_frame x ! j = sample_frame PyNone ! j"
  by (simp add: sample_frame_nth)

lemma tristate_frame_nth:
  "j < 105 \<Longrightarrow> tristate_frame x ! j =
     (if j = 12 then (sample_name 12, Series Object [x, PyStr ''Yes'', PyStr ''No''])
      else sample_frame PyNone ! j)"
  by (simp add: tristate_frame_def sample_frame_length)

lemma tristate_frame_length: "length (tristate_frame x) = 105"
  by (simp add: tristate_frame_def sample_frame_length)

lemma huge_column:
  "bool_conv decimal_lib (Series Object [PyInt (10 ^ 400), PyStr ''Yes'', PyStr ''No''])
     = Inl OverflowError"
  by (simp add: bool_conv_eq decimal_lib_def float_overflow_def)

text \<open>
  Claim C4, as stated, fails: three records whose boolean column 12 reads the integer
  \<open>10 ^ 400\<close>, \<^verbatim>\<open>"Yes"\<close> and \<^verbatim>\<open>"No"\<close>. The integer is not mapped to unknown:
  \<^verbatim>\<open>col.map(boolMap)\<close> raises \<^verbatim>\<open>OverflowError\<close> and so does \<^verbatim>\<open>dtypeConv\<close>.
\<close>

theorem boolean_map_overflow:
  "bool_conv decimal_lib (Series Object [PyInt (10 ^ 400), PyStr ''Yes'', PyStr ''No''])
     = Inl OverflowError
   \<and> dtypeConv decimal_lib (tristate_frame (PyInt (10 ^ 400))) = Inl OverflowError"
proof
  show c: "bool_conv decimal_lib (Series Object [PyInt (10 ^ 400), PyStr ''Yes'', PyStr ''No''])
     = Inl OverflowError"
    by (rule huge_column)
  let ?df = "tristate_frame (PyInt (10 ^ 400))"
  have s12: "snd (?df ! 12) = Series Object [PyInt (10 ^ 400), PyStr ''Yes'', PyStr ''No'']"
    by (simp add: tristate_frame_nth)
  have "col_run decimal_lib column_schema 12 (snd (?df ! 12)) = bool_conv decimal_lib (snd (?df ! 12))"
    by (rule bool_typed_run) (rule sample_kinds(1))
  with c have r12: "col_run decimal_lib column_schema 12 (snd (?df ! 12)) = Inl OverflowError"
    by (simp only: s12)
  show "dtypeConv decimal_lib ?df = Inl OverflowError"
  proof (cases "dtypeConv decimal_lib ?df")
    case (Inr df')
    have "12 < length ?df" by (simp add: tristate_frame_length)
    from dtypeConv_column [OF Inr this] r12 show ?thesis by auto
  next
    case (Inl e)
    from dtypeConv_Inl [OF Inl] obtain j where j: "j < 105"
      and cj: "col_run decimal_lib column_schema j (snd (?df ! j)) = Inl e"
      by (auto simp: tristate_frame_length)
    have "j = 12"
    proof (rule ccontr)
      assume "j \<noteq> 12"
      with j have "?df ! j = sample_frame PyNone ! j" by (simp add: tristate_frame_nth)
      with cj sample_column_runs [OF j] show False by simp
    qed
    with cj r12 Inl show ?thesis by simp
  qed
qed

text \<open>
  Claim C4, amended. In a boolean-typed column that holds no integer beyond the float
  range the coercion of \<^verbatim>\<open>dtypeConv\<close> never raises, whatever the cells are: \<^verbatim>\<open>"Yes"\<close>
  becomes true, \<^verbatim>\<open>"No"\<close> false, and the empty text, a missing value and every other
  literal become unknown (\<^verbatim>\<open>pd.NA\<close>). In the table \<^verbatim>\<open>dtypeConv\<close> returns, the unknown
  cells of a boolean-typed column are \<^verbatim>\<open>None\<close>.
\<close>

theorem boolean_tristate_mapping:
  "(\<not> list_ex huge (vals s) \<longrightarrow> bool_conv L s = Inr (Series Boolean (map tristate (vals s))))
   \<and> (dtypeConv L df = Inr df' \<and> j < length df \<and> bool_typed j \<longrightarrow>
        column df' j =
          map (\<lambda>v. if v = PyStr ''Yes'' then PyBool True
                    else if v = PyStr ''No'' then PyBool False else PyNone)
            (column df j))"
proof (intro conjI impI)
  assume "\<not> list_ex huge (vals s)"
  then show "bool_conv L s = Inr (Series Boolean (map tristate (vals s)))"
    by (simp add: bool_conv_eq)
next
  assume a: "dtypeConv L df = Inr df' \<and> j < length df \<and> bool_typed j"
  let ?vs = "column df j"
  from a dtypeConv_Inr [of L df df'] obtain s1
    where c: "col_run L column_schema j (snd (df ! j)) = Inr s1"
      and n: "snd (df' ! j) = normalize_nulls s1"
    by blast
  from a c have s1: "s1 = Series Boolean (map tristate ?vs)"
    by (simp add: bool_typed_run bool_conv_eq column_def split: if_splits)
  show "column df' j =
          map (\<lambda>v. if v = PyStr ''Yes'' then PyBool True
                    else if v = PyStr ''No'' then PyBool False else PyNone) ?vs"
  proof (cases "list_ex is_null (map tristate ?vs)")
    case True
    then show ?thesis
      by (simp add: column_def n s1 normalize_nulls_eq replace_nan_none_col_def tristate_def)
  next
    case False
    then have "\<forall>v\<in>set ?vs. v = PyStr ''Yes'' \<or> v = PyStr ''No''"
      by (auto simp: list_ex_iff tristate_null)
    with False show ?thesis
      by (auto simp: column_def n s1 normalize_nulls_eq replace_nan_none_col_def tristate_def)
  qed
qed

theorem boolean_tristate_mapping_witness:
  "\<not> list_ex huge [PyStr ''Yes'', PyStr ''No'', PyStr ''maybe'']
   \<and> bool_conv decimal_lib (Series Object [PyStr ''Yes'', PyStr ''No'', PyStr ''maybe''])
       = Inr (Series Boolean [PyBool True, PyBool False, NA])
   \<and> bool_typed 12 \<and> 12 < length (sample_frame PyNone)
   \<and> (case dtypeConv decimal_lib (sample_frame PyNone) of
         Inl e \<Rightarrow> False
       | Inr df' \<Rightarrow> column df' 12 = [PyBool True, PyBool False, PyNone])"
proof -
  obtain df' where d: "dtypeConv decimal_lib (sample_frame PyNone) = Inr df'"
    using sample_frame_converts by blast
  have "column (sample_frame PyNone) 12 = sample_cells BoolMap"
    by (simp add: column_def sample_frame_nth sample_kinds del: sample_cells.simps)
  with boolean_tristate_mapping
         [of "Series Object [PyStr ''Yes'', PyStr ''No'', PyStr ''maybe'']" decimal_lib
             "sample_frame PyNone" df' 12] d
  show ?thesis
    by (simp add: sample_kinds sample_frame_length tristate_def)
qed

text \<open>
  Claim C7. The table \<^verbatim>\<open>dtypeConv\<close> returns for three records whose float column 23 reads
  \<^verbatim>\<open>"1.5"\<close>, \<^verbatim>\<open>""\<close> and \<^verbatim>\<open>None\<close>: the two missing values come back as \<^verbatim>\<open>None\<close> in a
  column of Python objects. They are not replaced with zero: the statement before the
  loop over the float columns has already turned the column into objects, and the loop
  passes it by.
\<close>

theorem float_nulls_not_zeroed:
  "(case dtypeConv decimal_lib (sample_frame PyNone) of
      Inl e \<Rightarrow> False
    | Inr df' \<Rightarrow> df' ! 23 = (''field23'', Series Object [PyFloat (3 / 2), PyNone, PyNone]))"
proof -
  obtain df' where d: "dtypeConv decimal_lib (sample_frame PyNone) = Inr df'"
    using sample_frame_converts by blast
  have "23 < length (sample_frame PyNone)" by (simp add: sample_frame_length)
  from dtypeConv_column [OF d this] obtain s1
    where f: "fst (df' ! 23) = fst (sample_frame PyNone ! 23)"
      and c: "col_run decimal_lib column_schema 23 (snd (sample_frame PyNone ! 23)) = Inr s1"
      and n: "snd (df' ! 23) = normalize_nulls s1"
    by blast
  have "take 2 (sample_cells FloatConv) @ [PyNone] = sample_cells FloatConv" by simp
  then have "snd (sample_frame PyNone ! 23) = Series Object (sample_cells FloatConv)"
    by (simp add: sample_frame_nth del: sample_cells.simps)
  with c have "s1 = Series Float64 [PyFloat (3 / 2), NaN, NaN]"
    using sample_conversions(6) by (simp add: float_typed_run sample_kinds)
  with n have "snd (df' ! 23) = Series Object [PyFloat (3 / 2), PyNone, PyNone]"
    by (simp add: normalize_nulls_eq replace_nan_none_col_def)
  moreover from f have "fst (df' ! 23) = ''field23''"
    by (simp add: sample_frame_nth sample_name_23)
  ultimately have "df' ! 23 = (''field23'', Series Object [PyFloat (3 / 2), PyNone, PyNone])"
    by (simp add: prod_eq_iff)
  with d show ?thesis by simp
qed

text \<open>
  Claim C6, as stated, fails: three records whose float column 23 reads \<^verbatim>\<open>"1.5"\<close>, \<^verbatim>\<open>""\<close>
  and \<^verbatim>\<open>"abc"\<close>. The text \<^verbatim>\<open>"abc"\<close> is not coerced to a missing value: the conversion of
  the column raises \<^verbatim>\<open>ValueError\<close> and so does \<^verbatim>\<open>dtypeConv\<close>.
\<close>

theorem float_text_raises:
  "float_conv decimal_lib (Series Object [PyStr ''1.5'', PyStr '''', PyStr ''abc'']) = Inl ValueError
   \<and> dtypeConv decimal_lib (sample_frame (PyStr ''abc'')) = Inl ValueError"
proof
  show c: "float_conv decimal_lib (Series Object [PyStr ''1.5'', PyStr '''', PyStr ''abc'']) = Inl ValueError"
    by (rule sample_float_column)
  let ?df = "sample_frame (PyStr ''abc'')"
  have s23: "snd (?df ! 23) = Series Object [PyStr ''1.5'', PyStr '''', PyStr ''abc'']"
    by (simp add: sample_frame_nth)
  have r23: "col_run decimal_lib column_schema 23 (snd (?df ! 23)) = Inl ValueError"
    using c by (simp add: s23 float_typed_run sample_kinds)
  show "dtypeConv decimal_lib ?df = Inl ValueError"
  proof (cases "dtypeConv decimal_lib ?df")
    case (Inr df')
    have "23 < length ?df" by (simp add: sample_frame_length)
    from dtypeConv_column [OF Inr this] r23 show ?thesis by auto
  next
    case (Inl e)
    from dtypeConv_Inl [OF Inl] obtain j where j: "j < 105"
      and cj: "col_run decimal_lib column_schema j (snd (?df ! j)) = Inl e"
      by (auto simp: sample_frame_length)
    have "j = 23"
    proof (rule ccontr)
      assume "j \<noteq> 23"
      with j have "?df ! j = sample_frame PyNone ! j" by (rule sample_frame_other)
      with cj sample_column_runs [OF j] show False by simp
    qed
    with cj r23 Inl show ?thesis by simp
  qed
qed

lemma float_of_cell_missing:
  "v \<in> {PyStr '''', PyNone, NaN} \<Longrightarrow>
     float_of_cell L (if v = PyStr '''' then NaN else v) = Inr NaN"
  by auto

lemma mapM_map: "mapM f (map h xs) = mapM (\<lambda>x. f (h x)) xs"
  by (induction xs) (simp_all split: sum.splits)

lemma mapM_first_error:
  "i < length xs \<Longrightarrow> f (xs ! i) = Inl e \<Longrightarrow> (\<And>k. k < i \<Longrightarrow> \<exists>y. f (xs ! k) = Inr y)
     \<Longrightarrow> mapM f xs = Inl e"
proof (induction xs arbitrary: i)
  case Nil
  then show ?case by simp
next
  case (Cons x xs)
  show ?case
  proof (cases i)
    case 0
    with Cons.prems(2) show ?thesis by simp
  next
    case (Suc n)
    from Cons.prems(3) [of 0] Suc obtain y where y: "f x = Inr y" by auto
    have "mapM f xs = Inl e"
    proof (rule Cons.IH)
      show "n < length xs" using Cons.prems(1) Suc by simp
      show "f (xs ! n) = Inl e" using Cons.prems(2) Suc by simp
      fix k assume "k < n"
      then have "Suc k < i" using Suc by simp
      from Cons.prems(3) [OF this] show "\<exists>y. f (xs ! k) = Inr y" by simp
    qed
    with y show ?thesis by simp
  qed
qed

lemma float_conv_mapM:
  "float_conv L s =
     (case mapM (\<lambda>v. float_of_cell L (if v = PyStr '''' then NaN else v)) (vals s) of
        Inl e \<Rightarrow> Inl e
      | Inr vs \<Rightarrow> Inr (Series Float64 vs))"
  by (simp add: float_conv_def astype_float_def replace_empty_def mapM_map)

lemma float_castable_iff:
  "float_castable L v \<longleftrightarrow> (\<exists>y. float_of_cell L (if v = PyStr '''' then NaN else v) = Inr y)"
  by (simp add: float_castable_def split: sum.splits)

lemma float_conv_returns:
  assumes "list_all (float_castable L) (vals s)"
  shows "\<exists>s1. float_conv L s = Inr s1"
proof -
  have "\<exists>ys. mapM (\<lambda>v. float_of_cell L (if v = PyStr '''' then NaN else v)) (vals s) = Inr ys"
    by (rule mapM_total) (use assms in \<open>simp add: list_all_iff float_castable_iff\<close>)
  then show ?thesis by (auto simp: float_conv_mapM)
qed

lemma float_conv_castable:
  assumes "float_conv L s = Inr s1"
  shows "list_all (float_castable L) (vals s)"
proof -
  from assms obtain vs
    where "mapM (\<lambda>v. float_of_cell L (if v = PyStr '''' then NaN else v)) (vals s) = Inr vs"
    by (auto simp: float_conv_mapM split: sum.splits)
  then show ?thesis
    by (auto simp: mapM_Inr_iff list_all_length float_castable_iff)
qed

lemma float_conv_ValueError:
  assumes "i < length (vals s)" and "vals s ! i = PyStr x" and "x \<noteq> ''''"
    and "float_of_str L x = None" and "list_all (float_castable L) (take i (vals s))"
  shows "float_conv L s = Inl ValueError"
proof -
  let ?f = "\<lambda>v. float_of_cell L (if v = PyStr '''' then NaN else v)"
  have "mapM ?f (vals s) = Inl ValueError"
  proof (rule mapM_first_error [OF assms(1)])
    show "?f (vals s ! i) = Inl ValueError" using assms(2-4) by simp
    fix k assume k: "k < i"
    with assms(1) have "take i (vals s) ! k = vals s ! k" by simp
    moreover from assms(1,5) k have "float_castable L (take i (vals s) ! k)"
      by (simp add: list_all_length)
    ultimately show "\<exists>y. ?f (vals s ! k) = Inr y" by (simp add: float_castable_iff)
  qed
  then show ?thesis by (simp add: float_conv_mapM)
qed

text \<open>
  Claim C6, amended. The coercion of a float-typed column,
  \<^verbatim>\<open>.replace('', np.nan).astype(float)\<close>, accepts the empty text and the missing values
  and maps them to "no value" (\<^verbatim>\<open>NaN\<close> in the coerced column). A text that is not empty
  and that \<^verbatim>\<open>float\<close> rejects is not coerced: the cast of the column raises
  \<^verbatim>\<open>ValueError\<close>, unless a cell above it raises first, and \<^verbatim>\<open>dtypeConv\<close> ends with an
  exception; it returns a table only when the cast accepts every cell of the column.
\<close>

theorem float_column_coercion:
  "(v \<in> {PyStr '''', PyNone, NaN} \<longrightarrow> float_castable L v)
   \<and> (list_all (float_castable L) (vals s) \<longrightarrow>
        (\<exists>s1. float_conv L s = Inr s1 \<and> dtype s1 = Float64
              \<and> length (vals s1) = length (vals s)
              \<and> (\<forall>i<length (vals s).
                    vals s ! i \<in> {PyStr '''', PyNone, NaN} \<longrightarrow> vals s1 ! i = NaN)))
   \<and> (i < length (vals s) \<and> vals s ! i = PyStr x \<and> x \<noteq> '''' \<and> float_of_str L x = None
        \<and> list_all (float_castable L) (take i (vals s)) \<longrightarrow>
          float_conv L s = Inl ValueError)
   \<and> (float_typed j \<and> j < length df \<longrightarrow>
        (dtypeConv L df = Inr df' \<longrightarrow> list_all (float_castable L) (column df j))
        \<and> ((\<exists>x. PyStr x \<in> set (column df j) \<and> x \<noteq> '''' \<and> float_of_str L x = None) \<longrightarrow>
             isl (dtypeConv L df)))"
proof (intro conjI impI; (elim conjE)?)
  assume "v \<in> {PyStr '''', PyNone, NaN}"
  then show "float_castable L v" by (auto simp: float_castable_def)
next
  assume a: "list_all (float_castable L) (vals s)"
  then obtain s1 where c: "float_conv L s = Inr s1" using float_conv_returns by blast
  note F = float_conv_Inr [OF c]
  have "vals s1 ! i = NaN"
    if i: "i < length (vals s)" and m: "vals s ! i \<in> {PyStr '''', PyNone, NaN}" for i
  proof -
    from F i have "float_of_cell L (if vals s ! i = PyStr '''' then NaN else vals s ! i)
      = Inr (vals s1 ! i)" by blast
    with float_of_cell_missing [OF m, of L] show ?thesis by simp
  qed
  with c F show "\<exists>s1. float_conv L s = Inr s1 \<and> dtype s1 = Float64
              \<and> length (vals s1) = length (vals s)
              \<and> (\<forall>i<length (vals s).
                    vals s ! i \<in> {PyStr '''', PyNone, NaN} \<longrightarrow> vals s1 ! i = NaN)"
    by blast
next
  assume "i < length (vals s)" "vals s ! i = PyStr x" "x \<noteq> ''''" "float_of_str L x = None"
    "list_all (float_castable L) (take i (vals s))"
  then show "float_conv L s = Inl ValueError" by (rule float_conv_ValueError)
next
  assume ft: "float_typed j" and j: "j < length df" and d: "dtypeConv L df = Inr df'"
  from dtypeConv_column [OF d j] ft obtain s1
    where c: "float_conv L (snd (df ! j)) = Inr s1"
    by (auto simp: float_typed_run)
  then show "list_all (float_castable L) (column df j)"
    unfolding column_def by (rule float_conv_castable)
next
  assume ft: "float_typed j" and j: "j < length df"
    and "\<exists>x. PyStr x \<in> set (column df j) \<and> x \<noteq> '''' \<and> float_of_str L x = None"
  then obtain x where x: "PyStr x \<in> set (column df j)"
    and ne: "x \<noteq> ''''" and p: "float_of_str L x = None"
    by blast
  from ne p have n: "\<not> float_castable L (PyStr x)" by (simp add: float_castable_def)
  show "isl (dtypeConv L df)"
  proof (cases "dtypeConv L df")
    case (Inl e)
    then show ?thesis by simp
  next
    case (Inr df')
    from dtypeConv_column [OF Inr j] ft obtain s1
      where c: "float_conv L (snd (df ! j)) = Inr s1"
      by (auto simp: float_typed_run)
    from float_conv_castable [OF c] x n show ?thesis
      by (auto simp: column_def list_all_iff)
  qed
qed

theorem float_column_coercion_witness:
  "float_castable decimal_lib (PyStr '''')
   \<and> list_all (float_castable decimal_lib) [PyStr ''1.5'', PyStr '''', PyNone]
   \<and> (case float_conv decimal_lib (Series Object [PyStr ''1.5'', PyStr '''', PyNone]) of
         Inl e \<Rightarrow> False
       | Inr s1 \<Rightarrow> dtype s1 = Float64 \<and> vals s1 ! 1 = NaN \<and> vals s1 ! 2 = NaN)
   \<and> float_of_str decimal_lib ''abc'' = None
   \<and> list_all (float_castable decimal_lib) (take 2 [PyStr ''1.5'', PyStr '''', PyStr ''abc''])
   \<and> float_conv decimal_lib (Series Object [PyStr ''1.5'', PyStr '''', PyStr ''abc''])
       = Inl ValueError
   \<and> float_typed 23 \<and> 23 < length (sample_frame PyNone)
   \<and> list_all (float_castable decimal_lib) (column (sample_frame PyNone) 23)
   \<and> PyStr ''abc'' \<in> set (column (sample_frame (PyStr ''abc'')) 23)
   \<and> isl (dtypeConv decimal_lib (sample_frame (PyStr ''abc'')))"
proof -
  obtain df' where d: "dtypeConv decimal_lib (sample_frame PyNone) = Inr df'"
    using sample_frame_converts by blast
  have c1: "column (sample_frame x) 23 = [PyStr ''1.5'', PyStr '''', x]" for x
    by (simp add: column_def sample_frame_nth)
  have p: "float_of_str decimal_lib ''abc'' = None"
    by code_simp
  have q: "list_all (float_castable decimal_lib) [PyStr ''1.5'', PyStr '''', PyNone]"
    by code_simp
  have l: "23 < length (sample_frame x)" for x by (simp add: sample_frame_length)
  note A = float_column_coercion
             [of "PyStr ''''" decimal_lib "Series Object [PyStr ''1.5'', PyStr '''', PyNone]"
                 0 "[]" 23 "sample_frame PyNone" df']
  note B = float_column_coercion
             [of PyNone decimal_lib "Series Object [PyStr ''1.5'', PyStr '''', PyStr ''abc'']"
                 2 "''abc''" 23 "sample_frame (PyStr ''abc'')" df']
  from A have a1: "float_castable decimal_lib (PyStr '''')" by simp
  from A q obtain s1
    where "float_conv decimal_lib (Series Object [PyStr ''1.5'', PyStr '''', PyNone]) = Inr s1"
      and "dtype s1 = Float64" and "vals s1 ! 1 = NaN" and "vals s1 ! 2 = NaN"
    by auto
  then have a2: "(case float_conv decimal_lib (Series Object [PyStr ''1.5'', PyStr '''', PyNone]) of
         Inl e \<Rightarrow> False
       | Inr s1 \<Rightarrow> dtype s1 = Float64 \<and> vals s1 ! 1 = NaN \<and> vals s1 ! 2 = NaN)"
    by simp
  from A d have a3: "list_all (float_castable decimal_lib) (column (sample_frame PyNone) 23)"
    by (simp add: sample_kinds l)
  from q have q2: "list_all (float_castable decimal_lib) (take 2 [PyStr ''1.5'', PyStr '''', PyStr ''abc''])"
    by simp
  from B p q2 have b1: "float_conv decimal_lib (Series Object [PyStr ''1.5'', PyStr '''', PyStr ''abc''])
       = Inl ValueError"
    by simp
  from B p have b2: "isl (dtypeConv decimal_lib (sample_frame (PyStr ''abc'')))"
    by (auto simp: sample_kinds l c1)
  from a1 q a2 p q2 b1 a3 b2 show ?thesis
    by (simp add: sample_kinds l c1)
qed


lemma select_Cons: "select (k # ks) (x # xs) = (if k then [x] else []) @ select ks xs"
  by (simp add: select_def)

lemma select_nths:
  "length keep = length xs \<Longrightarrow>
     select keep xs = map (\<lambda>i. xs ! i) (filter (\<lambda>i. keep ! i) [0..<length xs])"
proof (induction keep xs rule: list_induct2)
  case Nil
  then show ?case by (simp add: select_def)
next
  case (Cons k ks x xs)
  have u: "[0..<Suc (length xs)] = 0 # map Suc [0..<length xs]"
    by (simp add: upt_conv_Cons map_Suc_upt del: upt_Suc)
  show ?case
    unfolding select_Cons Cons.IH
    by (simp add: u filter_map comp_def del: upt_Suc)
qed

lemma numeric_series_vals:
  "\<exists>g. vals (numeric_series vs) = map g vs \<and> (\<forall>v. is_null (g v) = is_null v)"
proof -
  have i: "is_null (to_int v) = is_null v" for v by (cases v) simp_all
  have f: "is_null (to_float v) = is_null v" for v by (cases v) simp_all
  show ?thesis
  proof (cases "vs \<noteq> [] \<and> list_all is_bool vs")
    case True
    then have "vals (numeric_series vs) = map id vs" by (simp add: numeric_series_def)
    then show ?thesis by (intro exI [of _ id]) simp
  next
    case False
    show ?thesis
    proof (cases "list_all is_int64 vs \<or> list_all is_uint64 vs")
      case True
      with False have "vals (numeric_series vs) = map to_int vs"
        by (auto simp: numeric_series_def)
      with i show ?thesis by blast
    next
      case f2: False
      with False have "vals (numeric_series vs) = map to_float vs"
        by (auto simp: numeric_series_def)
      with f show ?thesis by blast
    qed
  qed
qed

lemma nrows_nth: "rectangular df \<Longrightarrow> j < length df \<Longrightarrow> length (column df j) = nrows df"
  by (simp add: rectangular_def list_all_length column_def case_prod_unfold)

lemma mapM_Inr_map: "(\<And>x. x \<in> set xs \<Longrightarrow> f x = Inr (g x)) \<Longrightarrow> mapM f xs = Inr (map g xs)"
  by (induction xs) simp_all

lemma numeric_coerce_Inl: "numeric_coerce L v = Inl e \<longleftrightarrow> huge v \<and> e = OverflowError"
  by (cases v) auto

lemma mapM_numeric_huge: "list_ex huge vs \<Longrightarrow> mapM (numeric_coerce L) vs = Inl OverflowError"
proof (induction vs)
  case Nil
  then show ?case by simp
next
  case (Cons a vs)
  show ?case
  proof (cases "numeric_coerce L a")
    case (Inl e)
    then have "e = OverflowError" by (simp add: numeric_coerce_Inl)
    with Inl show ?thesis by simp
  next
    case (Inr y)
    then have "\<not> huge a" using numeric_coerce_Inl [of L a OverflowError] by auto
    with Cons.prems have "list_ex huge vs" by simp
    with Cons.IH Inr show ?thesis by simp
  qed
qed

lemma huge_pets_facts:
  "2 \<le> length huge_pets" "fst (huge_pets ! 1) = ''animalID''"
  "distinct (map fst huge_pets)" "rectangular huge_pets"
  by code_simp+

lemma huge_pets_column: "list_ex huge (column huge_pets 1)"
  by (simp add: huge_pets_def column_def float_overflow_def)

lemma huge_pets_raises: "dropInvalid decimal_lib huge_pets = Inl OverflowError"
proof -
  have "mapM (numeric_coerce decimal_lib) (column huge_pets 1) = Inl OverflowError"
    using huge_pets_column by (rule mapM_numeric_huge)
  then have "to_numeric_coerce decimal_lib (snd (huge_pets ! 1)) = Inl OverflowError"
    by (simp add: to_numeric_coerce_def column_def)
  with huge_pets_facts(1) show ?thesis by (simp add: dropInvalid_def)
qed

text \<open>
  Claim C5, as stated, fails: two records whose identifiers are the integers \<open>10 ^ 400\<close>
  and \<open>5\<close>. \<^verbatim>\<open>pd.to_numeric\<close> raises \<^verbatim>\<open>OverflowError\<close> on the first, which
  \<^verbatim>\<open>errors='coerce'\<close> does not catch: \<^verbatim>\<open>dropInvalid\<close> returns no table, and the second
  record, whose identifier coerces, is not retained.
\<close>

theorem identifier_overflow:
  "coerces decimal_lib (PyInt 5) \<and> dropInvalid decimal_lib huge_pets = Inl OverflowError"
  using huge_pets_raises by (simp add: coerces_def float_overflow_def)

text \<open>
  Claim C5, amended. On a table whose second column is named \<^verbatim>\<open>animalID\<close> and holds
  no integer beyond the float range, \<^verbatim>\<open>dropInvalid\<close> returns exactly the records whose
  identifier coerces to a number, in their order: a record whose identifier fails the
  coercion is left out, every other record is kept with its cells as they were and its
  identifier as \<^verbatim>\<open>pd.to_numeric\<close> reads it (a float as soon as one identifier of the
  feed fails). An identifier that is an integer beyond the float range makes
  \<^verbatim>\<open>dropInvalid\<close> raise \<^verbatim>\<open>OverflowError\<close>.
\<close>

theorem identifier_filter:
  assumes "2 \<le> length df" and "fst (df ! 1) = ''animalID''"
    and "distinct (map fst df)" and "rectangular df"
  shows "(list_ex huge (column df 1) \<longrightarrow> dropInvalid L df = Inl OverflowError)
     \<and> (\<not> list_ex huge (column df 1) \<longrightarrow>
          (\<exists>df' new. dropInvalid L df = Inr df' \<and> to_numeric_coerce L (snd (df ! 1)) = Inr new
             \<and> map fst df' = map fst df
             \<and> (\<forall>j<length df. j \<noteq> 1 \<longrightarrow>
                   column df' j = map (\<lambda>i. column df j ! i) (kept_rows L df))
             \<and> column df' 1 = map (\<lambda>i. vals new ! i) (kept_rows L df)
             \<and> list_all (\<lambda>v. \<not> is_null v) (column df' 1)))"
proof (intro conjI impI)
  assume "list_ex huge (column df 1)"
  then have "mapM (numeric_coerce L) (column df 1) = Inl OverflowError"
    by (rule mapM_numeric_huge)
  then have "to_numeric_coerce L (snd (df ! 1)) = Inl OverflowError"
    by (simp add: to_numeric_coerce_def column_def)
  with assms(1) show "dropInvalid L df = Inl OverflowError" by (simp add: dropInvalid_def)
next
  assume nh: "\<not> list_ex huge (column df 1)"
  let ?s = "snd (df ! 1)"
  define g0 where "g0 v = (case numeric_coerce L v of Inl e \<Rightarrow> NaN | Inr c \<Rightarrow> c)" for v
  have c0: "numeric_coerce L v = Inr (g0 v)" if "v \<in> set (column df 1)" for v
  proof (cases "numeric_coerce L v")
    case (Inl e)
    with nh that show ?thesis by (auto simp: numeric_coerce_Inl list_ex_iff)
  next
    case (Inr c)
    then show ?thesis by (simp add: g0_def)
  qed
  define new where "new = numeric_series (map g0 (vals ?s))"
  have "mapM (numeric_coerce L) (vals ?s) = Inr (map g0 (vals ?s))"
    by (rule mapM_Inr_map) (use c0 in \<open>simp add: column_def\<close>)
  then have tn: "to_numeric_coerce L ?s = Inr new"
    by (simp add: to_numeric_coerce_def new_def)
  let ?s1 = "iloc_assign ?s new"
  let ?df1 = "df[1 := (''animalID'', ?s1)]"
  obtain g where g: "vals new = map g (map g0 (vals ?s))"
    and gn: "\<And>v. is_null (g v) = is_null v"
    unfolding new_def using numeric_series_vals by blast
  have v1: "vals ?s1 = map (\<lambda>v. g (g0 v)) (column df 1)"
    using g by (simp add: iloc_assign_def column_def)
  have vn: "vals ?s1 = vals new" by (simp add: iloc_assign_def)
  let ?keep = "map (\<lambda>v. \<not> is_null v) (vals ?s1)"
  have names: "map fst ?df1 = map fst df"
    using assms(1,2) by (simp add: map_update list_update_same_conv)
  have "(''animalID'', ?s1) \<in> set ?df1"
    using assms(1) by (simp add: set_update_memI)
  with assms(3) names have m: "map_of ?df1 ''animalID'' = Some ?s1"
    by simp
  have d: "dropInvalid L df = Inr (take_rows ?keep ?df1)"
    using assms(1,2) m tn by (simp add: dropInvalid_def dropna_def)
  have n1: "length (column df 1) = nrows df"
    using assms(1,4) by (simp add: nrows_nth)
  have kp: "?keep ! i = coerces L (column df 1 ! i)" if "i < nrows df" for i
  proof -
    from that n1 have "column df 1 ! i \<in> set (column df 1)" by simp
    from c0 [OF this] that n1 v1 show ?thesis by (simp add: gn coerces_def)
  qed
  have k: "filter (\<lambda>i. ?keep ! i) [0..<nrows df] = kept_rows L df"
    unfolding kept_rows_def
    by (rule filter_cong) (use kp in simp_all)
  have col: "column (take_rows ?keep ?df1) j = select ?keep (vals (snd (?df1 ! j)))"
    if "j < length df" for j
    using that by (simp add: take_rows_def column_def split: prod.splits)
  have other: "column (take_rows ?keep ?df1) j = map (\<lambda>i. column df j ! i) (kept_rows L df)"
    if j: "j < length df" and ne: "j \<noteq> 1" for j
  proof -
    have l: "length ?keep = length (column df j)"
      using j assms(4) v1 n1 by (simp add: nrows_nth)
    from ne have "vals (snd (?df1 ! j)) = column df j" by (simp add: column_def)
    with col [OF j] select_nths [OF l] k j assms(4) show ?thesis
      by (simp add: nrows_nth)
  qed
  have ln: "length (vals ?s1) = nrows df" using v1 n1 by simp
  have ident: "column (take_rows ?keep ?df1) 1 = map (\<lambda>i. vals new ! i) (kept_rows L df)"
  proof -
    have l: "length ?keep = length (vals ?s1)" by simp
    have s: "vals (snd (?df1 ! 1)) = vals ?s1" using assms(1) by simp
    from col [of 1] assms(1) have "column (take_rows ?keep ?df1) 1 = select ?keep (vals ?s1)"
      by (simp only: s)
    also have "\<dots> = map (\<lambda>i. vals ?s1 ! i) (filter (\<lambda>i. ?keep ! i) [0..<length (vals ?s1)])"
      by (rule select_nths [OF l])
    also have "\<dots> = map (\<lambda>i. vals new ! i) (kept_rows L df)"
      using k ln unfolding vn by simp
    finally show ?thesis .
  qed
  have nonnull: "list_all (\<lambda>v. \<not> is_null v) (column (take_rows ?keep ?df1) 1)"
  proof -
    have "\<not> is_null (vals new ! i)" if "i \<in> set (kept_rows L df)" for i
    proof -
      from that have i: "i < nrows df" and c: "coerces L (column df 1 ! i)"
        by (simp_all add: kept_rows_def)
      from kp [OF i] c have "?keep ! i" by simp
      with i ln show ?thesis by (simp add: iloc_assign_def)
    qed
    then show ?thesis unfolding ident by (simp add: list_all_iff)
  qed
  have "map fst (take_rows ?keep ?df1) = map fst df"
    using names by (simp add: take_rows_def comp_def case_prod_unfold)
  with d tn other ident nonnull
  show "\<exists>df' new. dropInvalid L df = Inr df' \<and> to_numeric_coerce L (snd (df ! 1)) = Inr new
             \<and> map fst df' = map fst df
             \<and> (\<forall>j<length df. j \<noteq> 1 \<longrightarrow>
                   column df' j = map (\<lambda>i. column df j ! i) (kept_rows L df))
             \<and> column df' 1 = map (\<lambda>i. vals new ! i) (kept_rows L df)
             \<and> list_all (\<lambda>v. \<not> is_null v) (column df' 1)"
    by blast
qed

lemma raw_pets_facts:
  "2 \<le> length raw_pets" "fst (raw_pets ! 1) = ''animalID''"
  "distinct (map fst raw_pets)" "rectangular raw_pets"
  "kept_rows decimal_lib raw_pets = [0, 2]"
  "column raw_pets 2 = [PyStr ''Rex'', PyStr ''IMG_0042'', PyStr ''Tom'']"
  "\<not> list_ex huge (column raw_pets 1)"
  "length raw_pets = 3"
  by code_simp+

lemma raw_pets_numeric:
  "to_numeric_coerce decimal_lib (snd (raw_pets ! 1))
     = Inr (Series Float64 [PyFloat 9007199254740992, NaN, PyFloat 99])"
proof -
  have "mapM (numeric_coerce decimal_lib) (vals (snd (raw_pets ! 1)))
          = Inr [PyInt 9007199254740993, NaN, PyInt 99]"
    by code_simp
  moreover have "numeric_series [PyInt 9007199254740993, NaN, PyInt 99]
          = Series Float64 [PyFloat 9007199254740992, NaN, PyFloat 99]"
    by (simp add: numeric_series_def round_double_def compute_floorlog Let_def)
  ultimately show ?thesis by (simp add: to_numeric_coerce_def)
qed

theorem identifier_filter_witness:
  "2 \<le> length raw_pets \<and> fst (raw_pets ! 1) = ''animalID''
   \<and> distinct (map fst raw_pets) \<and> rectangular raw_pets
   \<and> \<not> list_ex huge (column raw_pets 1)
   \<and> kept_rows decimal_lib raw_pets = [0, 2]
   \<and> (case dropInvalid decimal_lib raw_pets of
         Inl e \<Rightarrow> False
       | Inr df' \<Rightarrow> column df' 2 = [PyStr ''Rex'', PyStr ''Tom'']
                   \<and> column df' 1 = [PyFloat 9007199254740992, PyFloat 99])
   \<and> 2 \<le> length huge_pets \<and> fst (huge_pets ! 1) = ''animalID''
   \<and> distinct (map fst huge_pets) \<and> rectangular huge_pets
   \<and> list_ex huge (column huge_pets 1)
   \<and> dropInvalid decimal_lib huge_pets = Inl OverflowError"
proof -
  from identifier_filter [OF raw_pets_facts(1-4), of decimal_lib] raw_pets_facts(7)
  obtain df' new where d: "dropInvalid decimal_lib raw_pets = Inr df'"
    and n: "to_numeric_coerce decimal_lib (snd (raw_pets ! 1)) = Inr new"
    and o: "\<forall>j<length raw_pets. j \<noteq> 1 \<longrightarrow>
                 column df' j = map (\<lambda>i. column raw_pets j ! i) (kept_rows decimal_lib raw_pets)"
    and i: "column df' 1 = map (\<lambda>i. vals new ! i) (kept_rows decimal_lib raw_pets)"
    by blast
  from o raw_pets_facts(8) have "column df' 2 = map (\<lambda>i. column raw_pets 2 ! i) [0, 2]"
    by (simp add: raw_pets_facts(5))
  then have c2: "column df' 2 = [PyStr ''Rex'', PyStr ''Tom'']"
    by (simp add: raw_pets_facts(6))
  from n raw_pets_numeric have "new = Series Float64 [PyFloat 9007199254740992, NaN, PyFloat 99]"
    by simp
  with i have c1: "column df' 1 = [PyFloat 9007199254740992, PyFloat 99]"
    by (simp add: raw_pets_facts(5))
  from identifier_filter [OF huge_pets_facts, of decimal_lib] huge_pets_column
  have h: "dropInvalid decimal_lib huge_pets = Inl OverflowError" by blast
  from d c1 c2 h raw_pets_facts(1-7) huge_pets_facts huge_pets_column show ?thesis by simp
qed


lemma species_run:
  "schemaConv fs species_df = (Inr (species_df, []), Document [])"
  by code_simp

lemma species6_run:
  "schemaConv fs species6_df =
     (Inr ([(''species'', Series Int32
              [PyInt 3, PyInt 2, PyInt 3, PyInt 1, PyInt 2, PyInt 3, PyInt 4, PyInt 6, PyInt 5])],
           [(''species'',
             lookup_df [PyStr ''Bird'', PyStr ''Cat'', PyStr ''Dog'', PyStr ''Fish'',
                        PyStr ''Hamster'', PyStr ''Rabbit''])]),
      Document
        [(''species'',
          [[(''id'', PyInt 1), (''value'', PyStr ''Bird'')],
           [(''id'', PyInt 2), (''value'', PyStr ''Cat'')],
           [(''id'', PyInt 3), (''value'', PyStr ''Dog'')],
           [(''id'', PyInt 4), (''value'', PyStr ''Fish'')],
           [(''id'', PyInt 5), (''value'', PyStr ''Hamster'')],
           [(''id'', PyInt 6), (''value'', PyStr ''Rabbit'')]])])"
  by code_simp


text \<open>
  Claim C9, as stated, fails. The eight values of the scenario are five distinct species,
  which does not exceed the threshold of the test \<^verbatim>\<open>len(uniqueVals)>5\<close>: no lookup
  table comes back and the column does not hold the ids of the claim.
\<close>

theorem species_scenario_no_lookup:
  "fst (schemaConv NoFile species_df) \<noteq>
     Inr ([(''species'', Series Int32
              [PyInt 3, PyInt 2, PyInt 3, PyInt 1, PyInt 2, PyInt 3, PyInt 4, PyInt 5])],
          [(''species'',
            lookup_df [PyStr ''Bird'', PyStr ''Cat'', PyStr ''Dog'', PyStr ''Fish'',
                       PyStr ''Rabbit''])])"
  by (simp add: species_run)

text \<open>
  Claim C9, amended. On the eight values of the scenario \<^verbatim>\<open>schemaConv\<close> builds no lookup
  table, leaves the column as its literals and writes an empty contract. With a sixth
  species in the column (a ninth record, \<^verbatim>\<open>"Hamster"\<close>) it builds the lookup ids
  Bird=1, Cat=2, Dog=3, Fish=4, Hamster=5, Rabbit=6, in alphabetical order, and the
  column holds the id of each row.
\<close>

theorem species_scenario:
  "schemaConv fs species_df = (Inr (species_df, []), Document [])
   \<and> schemaConv fs species6_df =
     (Inr ([(''species'', Series Int32
              [PyInt 3, PyInt 2, PyInt 3, PyInt 1, PyInt 2, PyInt 3, PyInt 4, PyInt 6, PyInt 5])],
           [(''species'',
             [(''id'', Series Int64 [PyInt 1, PyInt 2, PyInt 3, PyInt 4, PyInt 5, PyInt 6]),
              (''value'', Series Object
                 [PyStr ''Bird'', PyStr ''Cat'', PyStr ''Dog'', PyStr ''Fish'',
                  PyStr ''Hamster'', PyStr ''Rabbit''])])]),
      Document
        [(''species'',
          [[(''id'', PyInt 1), (''value'', PyStr ''Bird'')],
           [(''id'', PyInt 2), (''value'', PyStr ''Cat'')],
           [(''id'', PyInt 3), (''value'', PyStr ''Dog'')],
           [(''id'', PyInt 4), (''value'', PyStr ''Fish'')],
           [(''id'', PyInt 5), (''value'', PyStr ''Hamster'')],
           [(''id'', PyInt 6), (''value'', PyStr ''Rabbit'')]])])"
proof -
  have "lookup_df [PyStr ''Bird'', PyStr ''Cat'', PyStr ''Dog'', PyStr ''Fish'',
                        PyStr ''Hamster'', PyStr ''Rabbit'']
      = [(''id'', Series Int64 [PyInt 1, PyInt 2, PyInt 3, PyInt 4, PyInt 5, PyInt 6]),
              (''value'', Series Object
                 [PyStr ''Bird'', PyStr ''Cat'', PyStr ''Dog'', PyStr ''Fish'',
                  PyStr ''Hamster'', PyStr ''Rabbit''])]"
    by code_simp
  then show ?thesis
    using species_run [of fs] species6_run [of fs] by simp
qed

lemma as_float_idem: "as_float (as_float v) = as_float v"
  by (cases v) simp_all

lemma infer_series_idem: "infer_series (vals (infer_series u)) = infer_series u"
proof -
  have f: "list_all (\<lambda>v. is_int v \<or> is_float v \<or> v = NaN \<or> v = PyNone) u \<Longrightarrow>
       \<not> list_all is_bool (map as_float u) \<or> u = []"
    by (cases u) (auto simp: list_all_iff elim!: is_int.elims is_float.elims)
  have g: "list_all (\<lambda>v. is_int v \<or> is_float v \<or> v = NaN \<or> v = PyNone) u \<Longrightarrow>
       \<not> list_all is_int (map as_float u) \<or> u = []"
    by (cases u) (auto simp: list_all_iff elim!: is_int.elims is_float.elims)
  have h: "list_all (\<lambda>v. is_int v \<or> is_float v \<or> v = NaN \<or> v = PyNone) u \<Longrightarrow>
       list_all (\<lambda>v. is_int v \<or> is_float v \<or> v = NaN \<or> v = PyNone) (map as_float u)"
    by (auto simp: list_all_iff elim!: is_int.elims is_float.elims)
  have k: "list_all (\<lambda>v. is_int v \<or> is_float v \<or> v = NaN \<or> v = PyNone) u \<Longrightarrow>
      u \<noteq> [] \<Longrightarrow> list_ex (\<lambda>v. v \<noteq> PyNone) (map as_float u)"
    by (cases u) (auto simp: list_all_iff list_ex_iff elim!: is_int.elims is_float.elims)
  show ?thesis
    using f g h k by (auto simp: infer_series_def as_float_idem)
qed

lemma remdups_pairs:
  "a \<noteq> b \<Longrightarrow> remdups (concat (replicate (Suc n) [b, a])) = [b, a]"
  by (induction n) auto

lemma record_names:
  assumes "a \<noteq> b" and "0 < n"
  shows "rev (remdups (rev (concat (replicate n [a, b])))) = [a, b]"
proof -
  obtain m where n: "n = Suc m" using assms(2) by (cases n) auto
  have "rev (concat (replicate n [a, b])) = concat (replicate n [b, a])"
    by (simp add: rev_concat)
  then show ?thesis using remdups_pairs [OF assms(1), of m] by (simp add: n)
qed

lemma length_infer_series: "length (vals (infer_series u)) = length u"
  by (simp add: infer_series_def)

lemma infer_ids:
  assumes "0 < n"
  shows "infer_series (map PyInt [1..int n]) = Series Int64 (map PyInt [1..int n])"
proof -
  from assms have "[1..int n] \<noteq> []" by simp
  then obtain x xs where "[1..int n] = x # xs" by (cases "[1..int n]") auto
  then show ?thesis by (simp add: infer_series_def list_all_iff)
qed

lemma lookup_df_round_trip:
  assumes "u \<noteq> []"
  shows "DataFrame_of_records (to_dict_records (lookup_df u)) = lookup_df u"
proof -
  let ?n = "length u"
  let ?ids = "map PyInt [1..int ?n]"
  let ?vs = "vals (infer_series u)"
  have n: "0 < ?n" using assms by simp
  have li: "length ?ids = ?n" by simp
  have nr: "nrows (lookup_df u) = ?n" by (simp add: nrows_def lookup_df_def)
  have recs: "to_dict_records (lookup_df u)
      = map (\<lambda>i. [(''id'', ?ids ! i), (''value'', ?vs ! i)]) [0..<?n]"
    by (simp add: to_dict_records_def nr) (simp add: lookup_df_def)
  have names: "concat (map (map fst) (to_dict_records (lookup_df u)))
      = concat (replicate ?n [''id'', ''value''])"
    by (simp add: recs comp_def map_replicate_const)
  have c1: "map (\<lambda>r. case map_of r ''id'' of None \<Rightarrow> NaN | Some v \<Rightarrow> v) (to_dict_records (lookup_df u)) = ?ids"
    unfolding recs using li by (simp add: comp_def map_nth [of ?ids, unfolded li])
  have c2: "map (\<lambda>r. case map_of r ''value'' of None \<Rightarrow> NaN | Some v \<Rightarrow> v) (to_dict_records (lookup_df u)) = ?vs"
    unfolding recs
    using map_nth [of ?vs] by (simp add: comp_def length_infer_series)
  show ?thesis
    unfolding DataFrame_of_records_def names record_names [OF _ n, of "''id''" "''value''", simplified]
    by (simp add: c1 c2 infer_ids [OF n] infer_series_idem) (simp add: lookup_df_def)
qed

lemma set_put: "set (put d k v) \<subseteq> set d \<union> {(k, v)}"
  by (induction d) (auto split: if_splits)

lemma build_lookups_tables:
  "build_lookups df cols T = Inr T' \<Longrightarrow>
   (\<And>c t. (c, t) \<in> set T \<Longrightarrow> \<exists>u. u \<noteq> [] \<and> t = lookup_df u) \<Longrightarrow>
   (c, t) \<in> set T' \<Longrightarrow> \<exists>u. u \<noteq> [] \<and> t = lookup_df u"
proof (induction cols arbitrary: T)
  case Nil
  then show ?case by auto
next
  case (Cons col cols)
  from Cons.prems(1) obtain s u where s: "map_of df col = Some s"
    and u: "py_sorted (cat_categories s) = Inr u"
    and r: "build_lookups df cols
                 (if length u > 5 then put T col (lookup_df u) else T) = Inr T'"
    by (auto split: option.splits sum.splits)
  let ?T = "if length u > 5 then put T col (lookup_df u) else T"
  have "\<exists>u. u \<noteq> [] \<and> t = lookup_df u" if "(c, t) \<in> set ?T" for c t
  proof (cases "length u > 5")
    case True
    with that set_put [of T col "lookup_df u"] have "(c, t) \<in> set T \<or> t = lookup_df u" by auto
    moreover from True have "u \<noteq> []" by auto
    ultimately show ?thesis using Cons.prems(2) by blast
  next
    case False
    with that Cons.prems(2) show ?thesis by auto
  qed
  from Cons.IH [OF r this Cons.prems(3)] show ?case by simp
qed

lemma load_serialize:
  assumes "\<And>c t. (c, t) \<in> set T \<Longrightarrow> \<exists>u. u \<noteq> [] \<and> t = lookup_df u"
  shows "load_lookups (Document (serialize T)) = Inr T"
proof -
  have "(case x of (col, t) \<Rightarrow> (col, DataFrame_of_records (to_dict_records t))) = x"
    if "x \<in> set T" for x
  proof -
    obtain c t where x: "x = (c, t)" by (cases x)
    with that assms obtain u where "u \<noteq> []" "t = lookup_df u" by blast
    with x show ?thesis by (simp add: lookup_df_round_trip)
  qed
  then have "map (\<lambda>(col, t). (col, DataFrame_of_records (to_dict_records t))) T = T"
    by (simp add: map_idI)
  then show ?thesis
    by (simp add: load_lookups_def serialize_def comp_def case_prod_unfold)
qed

text \<open>
  Claim C8. The mapping contract round-trips. For every set of lookup tables, one a
  column, each built as \<^verbatim>\<open>schemaConv\<close> builds it from a list of values that is not empty:
  the tables that \<^verbatim>\<open>schemaConv2\<close> loads from the document \<^verbatim>\<open>schemaConv\<close> writes for them
  are these tables, with the same ids for the same values. In particular, whenever
  \<^verbatim>\<open>schemaConv\<close> returns, loading the file it has written gives the lookup tables it has
  returned.
\<close>

theorem contract_round_trip:
  "((\<forall>(c, u)\<in>set spec. u \<noteq> []) \<longrightarrow>
      load_lookups (Document (serialize (map (\<lambda>(c, u). (c, lookup_df u)) spec)))
        = Inr (map (\<lambda>(c, u). (c, lookup_df u)) spec))
   \<and> (schemaConv fs df = (Inr (df', lookupTables), fs') \<longrightarrow>
        load_lookups fs' = Inr lookupTables)"
proof (intro conjI impI)
  assume "\<forall>(c, u)\<in>set spec. u \<noteq> []"
  then show "load_lookups (Document (serialize (map (\<lambda>(c, u). (c, lookup_df u)) spec)))
        = Inr (map (\<lambda>(c, u). (c, lookup_df u)) spec)"
    by (intro load_serialize) auto
next
  assume a: "schemaConv fs df = (Inr (df', lookupTables), fs')"
  then obtain T where b: "build_lookups df (catList df) [] = Inr T"
    by (auto simp: schemaConv_def split: sum.splits)
  with a have "lookupTables = T" and f: "fs' = Document (serialize T)"
    by (auto simp: schemaConv_def split: sum.splits if_splits)
  moreover have "\<exists>u. u \<noteq> [] \<and> t = lookup_df u" if "(c, t) \<in> set T" for c t
    using build_lookups_tables [OF b _ that] by simp
  ultimately show "load_lookups fs' = Inr lookupTables"
    using load_serialize [of T] by blast
qed

theorem contract_round_trip_witness:
  "[PyStr ''Bird'', PyStr ''Cat''] \<noteq> []
   \<and> load_lookups (Document
       [(''species'',
          [[(''id'', PyInt 1), (''value'', PyStr ''Bird'')],
           [(''id'', PyInt 2), (''value'', PyStr ''Cat'')]])])
       = Inr [(''species'',
             [(''id'', Series Int64 [PyInt 1, PyInt 2]),
              (''value'', Series Object [PyStr ''Bird'', PyStr ''Cat''])])]
   \<and> load_lookups (snd (schemaConv NoFile species6_df))
       = Inr (snd (projr (fst (schemaConv NoFile species6_df))))"
proof -
  have 1: "serialize [(''species'',
             [(''id'', Series Int64 [PyInt 1, PyInt 2]),
              (''value'', Series Object [PyStr ''Bird'', PyStr ''Cat''])])]
    = [(''species'',
          [[(''id'', PyInt 1), (''value'', PyStr ''Bird'')],
           [(''id'', PyInt 2), (''value'', PyStr ''Cat'')]])]"
    by code_simp
  have 2: "map (\<lambda>(c, u). (c, lookup_df u)) [(''species'', [PyStr ''Bird'', PyStr ''Cat''])]
    = [(''species'',
             [(''id'', Series Int64 [PyInt 1, PyInt 2]),
              (''value'', Series Object [PyStr ''Bird'', PyStr ''Cat''])])]"
    by code_simp
  obtain d T F where s: "schemaConv NoFile species6_df = (Inr (d, T), F)"
    using species6_run [of NoFile] by blast
  from contract_round_trip [of "[(''species'', [PyStr ''Bird'', PyStr ''Cat''])]" NoFile species6_df d T F]
  show ?thesis
    unfolding 2 1 using s by simp
qed

lemma py_eq_is_str: "is_str a \<Longrightarrow> py_eq a v \<longleftrightarrow> v = a"
  by (cases a) simp_all

lemma py_eq_int [simp]: "py_eq (PyInt a) (PyInt b) \<longleftrightarrow> a = b"
  by (simp add: py_eq_def)

lemma py_eq_is_int: "is_int a \<Longrightarrow> is_int b \<Longrightarrow> py_eq a b \<longleftrightarrow> a = b"
  by (cases a; cases b; simp)

lemma eq_like_strs: "\<forall>v\<in>S. is_str v \<Longrightarrow> eq_like S"
  by (auto simp: eq_like_def py_eq_is_str)

lemma eq_like_ints: "\<forall>v\<in>S. is_int v \<Longrightarrow> eq_like S"
  by (simp add: eq_like_def py_eq_is_int)

lemma eq_like_mono: "eq_like S \<Longrightarrow> T \<subseteq> S \<Longrightarrow> eq_like T"
  by (auto simp: eq_like_def)

lemma unique_step:
  assumes "eq_like (set acc \<union> set xs)"
  shows "set (foldl (\<lambda>seen x. if list_ex (\<lambda>y. py_eq y x) seen then seen else seen @ [x]) acc xs)
           = set acc \<union> set xs
       \<and> (distinct acc \<longrightarrow>
            distinct (foldl (\<lambda>seen x. if list_ex (\<lambda>y. py_eq y x) seen then seen else seen @ [x]) acc xs))
       \<and> (distinct (acc @ xs) \<longrightarrow>
            foldl (\<lambda>seen x. if list_ex (\<lambda>y. py_eq y x) seen then seen else seen @ [x]) acc xs = acc @ xs)"
  using assms
proof (induction xs arbitrary: acc)
  case Nil
  then show ?case by simp
next
  case (Cons x xs)
  have e: "list_ex (\<lambda>y. py_eq y x) acc \<longleftrightarrow> x \<in> set acc"
    using Cons.prems by (auto simp: list_ex_iff eq_like_def)
  show ?case
  proof (cases "x \<in> set acc")
    case True
    have "eq_like (set acc \<union> set xs)" using Cons.prems by (auto intro: eq_like_mono)
    from Cons.IH [OF this] True e show ?thesis by auto
  next
    case False
    have "eq_like (set (acc @ [x]) \<union> set xs)" using Cons.prems by (auto intro: eq_like_mono)
    from Cons.IH [OF this] False e show ?thesis by auto
  qed
qed

lemma py_unique_props:
  assumes "eq_like (set xs)"
  shows "set (py_unique xs) = set xs" and "distinct (py_unique xs)"
    and "distinct xs \<Longrightarrow> py_unique xs = xs"
  using unique_step [of "[]" xs] assms by (simp_all add: py_unique_def)

lemma short_sorted: "length (xs :: 'a::linorder list) \<le> 1 \<Longrightarrow> sorted xs"
  by (cases xs) (auto simp: le_Suc_eq)

lemma map_PyStr_str_key: "\<forall>v\<in>set xs. is_str v \<Longrightarrow> map PyStr (map str_key xs) = xs"
  by (induction xs) (auto elim: is_str.elims)

lemma str_key_PyStr: "is_str v \<Longrightarrow> PyStr (str_key v) = v"
  by (cases v) simp_all

lemma inj_on_str_key: "\<forall>v\<in>S. is_str v \<Longrightarrow> inj_on str_key S"
  unfolding inj_on_def by (metis str_key_PyStr)

lemma text_categories:
  assumes "\<forall>v\<in>set (vals s). is_str v \<or> is_null v"
  shows "py_sorted (cat_categories s) = Inr (distinct_values s)"
    and "set (cat_categories s) = {v \<in> set (vals s). \<not> is_null v}"
    and "distinct (cat_categories s)"
proof -
  let ?xs = "filter (\<lambda>v. \<not> is_null v) (vals s)"
  let ?cats = "cat_categories s"
  have sn: "is_str v \<Longrightarrow> \<not> is_null v" for v by (cases v) simp_all
  have f: "?xs = filter is_str (vals s)"
    by (rule filter_cong) (use assms sn in auto)
  have strs: "\<forall>v\<in>set ?xs. is_str v" using assms by auto
  then have el: "eq_like (set ?xs)" by (rule eq_like_strs)
  have cs: "set ?cats = set ?xs" and cd: "distinct ?cats"
    using py_unique_props(1,2) [OF el] by (simp_all add: cat_categories_def)
  show "set ?cats = {v \<in> set (vals s). \<not> is_null v}" using cs by auto
  show "distinct ?cats" by (rule cd)
  have cstr: "\<forall>v\<in>set ?cats. is_str v" using cs strs by simp
  define U where "U = (if length ?cats \<le> 1 then ?cats else sort_key str_key ?cats)"
  have p: "py_sorted ?cats = Inr U"
    using cstr by (simp add: py_sorted_def U_def list_all_iff)
  have us: "set U = set ?cats" and ud: "distinct U" using cd by (simp_all add: U_def)
  have so: "sorted (map str_key U)"
    by (simp add: U_def short_sorted)
  have ustr: "\<forall>v\<in>set U. is_str v" using us cstr by simp
  have dk: "distinct (map str_key U)"
    using ud inj_on_str_key [OF ustr] by (simp add: distinct_map)
  have sk: "set (map str_key U) = set (map str_key (filter is_str (vals s)))"
    using us cs f by simp
  have "map str_key U = sort (remdups (map str_key (filter is_str (vals s))))"
    by (rule sorted_distinct_set_unique) (use so dk sk in simp_all)
  then have "U = distinct_values s"
    using map_PyStr_str_key [OF ustr] by (simp add: distinct_values_def)
  with p show "py_sorted ?cats = Inr (distinct_values s)" by simp
qed

lemma distinct_values_props:
  "distinct (distinct_values s)" "\<forall>v\<in>set (distinct_values s). is_str v"
  "set (distinct_values s) = {v \<in> set (vals s). is_str v}"
proof -
  show "distinct (distinct_values s)"
    by (simp add: distinct_values_def distinct_map inj_on_def)
  show "\<forall>v\<in>set (distinct_values s). is_str v"
    by (auto simp: distinct_values_def)
  have "PyStr ` str_key ` {v \<in> set (vals s). is_str v} = {v \<in> set (vals s). is_str v}"
    by (force simp: str_key_PyStr image_iff)
  then show "set (distinct_values s) = {v \<in> set (vals s). is_str v}"
    by (simp add: distinct_values_def)
qed

lemma dict_get_strs: "\<forall>k\<in>fst ` set d. is_str k \<Longrightarrow> dict_get d v = map_of d v"
  by (induction d) (auto simp: py_eq_is_str)

lemma dict_set_new:
  "\<forall>k'\<in>fst ` set d. \<not> py_eq k' k \<Longrightarrow> dict_set d k v = d @ [(k, v)]"
  by (induction d) auto

lemma py_dict_distinct:
  "eq_like (fst ` set (d @ kvs)) \<Longrightarrow> distinct (map fst (d @ kvs)) \<Longrightarrow> py_dict d kvs = d @ kvs"
proof (induction kvs arbitrary: d)
  case Nil
  then show ?case by simp
next
  case (Cons kv kvs)
  obtain k v where kv: "kv = (k, v)" by (cases kv)
  have "\<forall>k'\<in>fst ` set d. \<not> py_eq k' k"
    using Cons.prems by (auto simp: eq_like_def kv)
  then have s: "dict_set d k v = d @ [(k, v)]" by (rule dict_set_new)
  have "py_dict (d @ [(k, v)]) kvs = (d @ [(k, v)]) @ kvs"
    by (rule Cons.IH) (use Cons.prems in \<open>simp_all add: kv\<close>)
  with s show ?case by (simp add: kv)
qed

lemma map_of_put: "map_of (put d k v) = (map_of d)(k \<mapsto> v)"
  by (induction d) (auto simp: fun_eq_iff)

lemma names_put: "map fst (put d k v) = (if k \<in> fst ` set d then map fst d else map fst d @ [k])"
  by (induction d) (fastforce simp: image_iff)+

lemma build_lookups_map_of:
  "build_lookups df cols T = Inr T' \<Longrightarrow>
     (c \<notin> set cols \<longrightarrow> map_of T' c = map_of T c)
     \<and> (\<forall>s u. c \<in> set cols \<longrightarrow> map_of df c = Some s \<longrightarrow> py_sorted (cat_categories s) = Inr u \<longrightarrow>
            map_of T' c = (if length u > 5 then Some (lookup_df u) else map_of T c))
     \<and> (distinct (map fst T) \<longrightarrow> distinct (map fst T'))"
proof (induction cols arbitrary: T)
  case Nil
  then show ?case by simp
next
  case (Cons col cols)
  from Cons.prems obtain s u where s: "map_of df col = Some s"
    and u: "py_sorted (cat_categories s) = Inr u"
    and r: "build_lookups df cols
                 (if length u > 5 then put T col (lookup_df u) else T) = Inr T'"
    by (auto split: option.splits sum.splits)
  let ?T = "if length u > 5 then put T col (lookup_df u) else T"
  note IH = Cons.IH [OF r]
  have d: "distinct (map fst T) \<longrightarrow> distinct (map fst ?T)"
    by (auto simp: names_put)
  show ?case
    using IH s u d by (auto simp: map_of_put)
qed

lemma convert_columns_map_of:
  "convert_columns T df = Inr df' \<Longrightarrow> distinct (map fst T) \<Longrightarrow>
     map fst df' = map fst df
     \<and> (c \<notin> fst ` set T \<longrightarrow> map_of df' c = map_of df c)
     \<and> (\<forall>lookup. (c, lookup) \<in> set T \<longrightarrow>
           (\<exists>mapping s s'. mapping_of lookup = Inr mapping \<and> map_of df c = Some s
              \<and> astype_Int32 (map_categorical mapping s) = Inr s' \<and> map_of df' c = Some s'))"
proof (induction T arbitrary: df)
  case Nil
  then show ?case by simp
next
  case (Cons p T)
  obtain col lookup where p: "p = (col, lookup)" by (cases p)
  from Cons.prems(1) obtain mapping s s' where m: "mapping_of lookup = Inr mapping"
    and s: "map_of df col = Some s"
    and a: "astype_Int32 (map_categorical mapping s) = Inr s'"
    and r: "convert_columns T (put df col s') = Inr df'"
    by (auto simp: p split: sum.splits option.splits)
  from Cons.prems(2) have dT: "distinct (map fst T)" and nc: "col \<notin> fst ` set T"
    by (auto simp: p)
  note IH = Cons.IH [OF r dT]
  from s have "col \<in> fst ` set df" by (auto dest: map_of_SomeD simp: image_iff intro: rev_bexI)
  then have n: "map fst (put df col s') = map fst df" by (simp add: names_put)
  show ?case
  proof (intro conjI impI allI)
    show "map fst df' = map fst df" using IH n by simp
    show "map_of df' c = map_of df c" if "c \<notin> fst ` set (p # T)"
      using IH that by (auto simp: p map_of_put)
    show "\<exists>mapping s s'. mapping_of lookup' = Inr mapping \<and> map_of df c = Some s
              \<and> astype_Int32 (map_categorical mapping s) = Inr s' \<and> map_of df' c = Some s'"
      if "(c, lookup') \<in> set (p # T)" for lookup'
    proof (cases "(c, lookup') = p")
      case True
      with p have e: "c = col" "lookup' = lookup" by auto
      from IH nc e have "map_of df' c = map_of (put df col s') c" by simp
      with m s a e show ?thesis by (auto simp: map_of_put)
    next
      case False
      with that have i: "(c, lookup') \<in> set T" by simp
      with nc have "c \<noteq> col" by (auto simp: image_iff)
      with IH i show ?thesis by (auto simp: map_of_put)
    qed
  qed
qed

lemma infer_series_strs:
  assumes "u \<noteq> []" and "\<forall>v\<in>set u. is_str v"
  shows "infer_series u = Series Object u"
proof -
  obtain x xs where u: "u = x # xs" using assms(1) by (cases u) auto
  with assms(2) obtain t where "x = PyStr t" by (auto elim: is_str.elims)
  with u show ?thesis by (simp add: infer_series_def)
qed

lemma ids_nth: "k < n \<Longrightarrow> map PyInt [1..int n] ! k = PyInt (int k + 1)"
  by (simp add: nth_upto)

lemma id_mapping:
  assumes "distinct U" and "\<forall>v\<in>set U. is_str v" and "k < length U"
  shows "map_cell (zip U (map PyInt [1..int (length U)])) (U ! k) = PyInt (int k + 1)"
proof -
  let ?ids = "map PyInt [1..int (length U)]"
  have l: "length U = length ?ids" by simp
  have "fst ` set (zip U ?ids) \<subseteq> set U" by (auto dest: set_zip_leftD)
  with assms(2) have "\<forall>k\<in>fst ` set (zip U ?ids). is_str k" by blast
  then have "dict_get (zip U ?ids) (U ! k) = map_of (zip U ?ids) (U ! k)"
    by (rule dict_get_strs)
  also have "\<dots> = Some (?ids ! k)"
    using map_of_zip_nth [OF l assms(1)] assms(3) by simp
  finally show ?thesis using assms(3) by (simp add: map_cell_def ids_nth)
qed

lemma map_categorical_ids:
  assumes "\<forall>v\<in>set (vals s). is_str v \<or> is_null v"
  defines "U \<equiv> distinct_values s"
  defines "mapping \<equiv> zip U (map PyInt [1..int (length U)])"
  shows "map_categorical mapping s
     = Series Category (map (\<lambda>v. if is_null v then NaN else map_cell mapping v) (vals s))"
proof -
  let ?cats = "cat_categories s"
  let ?f = "map_cell mapping"
  have sn: "is_str v \<Longrightarrow> \<not> is_null v" for v by (cases v) simp_all
  have cs: "set ?cats = set U"
    using text_categories(2) [OF assms(1)] distinct_values_props(3) [of s] assms(1) sn
    by (auto simp: U_def)
  have cd: "distinct ?cats" by (rule text_categories(3) [OF assms(1)])
  have ud: "distinct U" and us: "\<forall>v\<in>set U. is_str v"
    using distinct_values_props(1,2) by (simp_all add: U_def)
  have F: "?f (U ! k) = PyInt (int k + 1)" if "k < length U" for k
    unfolding mapping_def by (rule id_mapping [OF ud us that])
  have ints: "\<forall>v\<in>set (map ?f ?cats). is_int v"
  proof
    fix v assume "v \<in> set (map ?f ?cats)"
    then obtain c where "c \<in> set U" "v = ?f c" using cs by auto
    then obtain k where "k < length U" "c = U ! k" by (auto simp: in_set_conv_nth)
    with F \<open>v = ?f c\<close> show "is_int v" by simp
  qed
  have inj: "inj_on ?f (set ?cats)"
  proof (rule inj_onI)
    fix x y assume "x \<in> set ?cats" "y \<in> set ?cats" and e: "?f x = ?f y"
    then obtain i j where i: "i < length U" "x = U ! i" and j: "j < length U" "y = U ! j"
      using cs by (auto simp: in_set_conv_nth)
    with F e have "i = j" by simp
    with i j show "x = y" by simp
  qed
  have "distinct (map ?f ?cats)" using cd inj by (simp add: distinct_map)
  moreover have "eq_like (set (map ?f ?cats))" using ints by (rule eq_like_ints)
  ultimately have "py_unique (map ?f ?cats) = map ?f ?cats"
    using py_unique_props(3) by blast
  moreover have "is_int v \<Longrightarrow> \<not> is_null v" for v by (cases v) simp_all
  with ints have "list_all (\<lambda>v. \<not> is_null v) (map ?f ?cats)"
    unfolding list_all_iff by blast
  ultimately show ?thesis
    by (simp add: map_categorical_def Let_def)
qed

end
